(* ===== verification/Prelude.thy ===== *)
theory Prelude
  imports Main "HOL-Library.Word" "HOL-Library.AList" "HOL-Library.Multiset"
begin

text \<open>
  What the components share: the Go values the package uses (\<open>int\<close>, counters that the code
  increments, byte strings, millisecond timestamps, maps), panics as values, the parts of the
  standard library the package calls (\<open>strconv.Itoa\<close>, the \<open>float64\<close> conversion of an unsigned
  integer, \<open>strings.TrimLeft\<close> and \<open>strings.TrimRight\<close>), and the collections of hints the
  component proofs use.

  A Go \<open>map\<close> is an association list with distinct keys (\<^term>\<open>gomap_wf\<close>). Its order stands
  for one of the iteration orders that a \<open>range\<close> loop may take: the code never relies on a
  particular one, and the theorems about loops over maps hold for every such list.
\<close>

named_theorems go_simps \<open>unfolding rules of the Go primitives\<close>
named_theorems inv_intros \<open>introduction rules of the component invariants\<close>

section \<open>Types\<close>

type_synonym bytes = string
type_synonym millis = "64 word"
type_synonym gocount = "64 word"
type_synonym float64 = "64 word"
type_synonym optInt = "int option"
type_synonym optString = "string option"
type_synonym ('k, 'v) gomap = "('k \<times> 'v) list"

datatype panic =
    NilDereference
  | MakeNegativeCap
  | SendOnClosedChannel
  | NegativeWaitGroup

type_synonym 'a go = "panic + 'a"

definition go_bind :: "'a go \<Rightarrow> ('a \<Rightarrow> 'b go) \<Rightarrow> 'b go" where
  [go_simps]: "go_bind m f = (case m of Inl p \<Rightarrow> Inl p | Inr a \<Rightarrow> f a)"

lemma go_bind_Inr [simp]: "go_bind (Inr a) f = f a"
  by (simp add: go_bind_def)

lemma go_bind_Inl [simp]: "go_bind (Inl p) f = Inl p"
  by (simp add: go_bind_def)

lemma go_bind_eq_Inr: "go_bind m f = Inr b \<longleftrightarrow> (\<exists>a. m = Inr a \<and> f a = Inr b)"
  by (cases m) auto

section \<open>Maps\<close>

definition gomap_wf :: "('k, 'v) gomap \<Rightarrow> bool" where
  "gomap_wf m \<longleftrightarrow> distinct (map fst m)"

lemma gomap_wf_Nil [simp]: "gomap_wf []"
  by (simp add: gomap_wf_def)

lemma gomap_wf_update [intro, simp]: "gomap_wf m \<Longrightarrow> gomap_wf (AList.update k v m)"
  by (simp add: gomap_wf_def distinct_update)

lemma update_Nil_iff [simp]: "AList.update k v m \<noteq> []"
  by (cases m) auto

lemma map_of_update [simp]: "map_of (AList.update k v m) = (map_of m)(k \<mapsto> v)"
  by (simp add: update_conv')

lemma set_update_fst [simp]: "fst ` set (AList.update k v m) = insert k (fst ` set m)"
  by (simp add: dom_update)

lemma update_new: "k \<notin> fst ` set m \<Longrightarrow> AList.update k v m = m @ [(k, v)]"
  by (induction m) auto

lemma gomap_wf_delete [intro, simp]: "gomap_wf m \<Longrightarrow> gomap_wf (AList.delete k m)"
  by (simp add: gomap_wf_def distinct_delete)

lemma map_of_eq_Some_mem: "gomap_wf m \<Longrightarrow> map_of m k = Some v \<longleftrightarrow> (k, v) \<in> set m"
  by (simp add: gomap_wf_def)

lemma update_all_values:
  "gomap_wf m \<Longrightarrow> \<forall>x \<in> snd ` set m. P x \<Longrightarrow> P v \<Longrightarrow> \<forall>x \<in> snd ` set (AList.update k v m). P x"
proof
  fix x assume wf: "gomap_wf m" and m: "\<forall>x \<in> snd ` set m. P x" and v: "P v"
    and "x \<in> snd ` set (AList.update k v m)"
  then obtain a where "(a, x) \<in> set (AList.update k v m)" by auto
  then have "((map_of m)(k \<mapsto> v)) a = Some x"
    using wf by (metis gomap_wf_update map_of_eq_Some_mem map_of_update)
  then show "P x" using v m wf by (force split: if_splits simp: map_of_eq_Some_mem)
qed

lemma map_of_all_values: "map_of m k = Some v \<Longrightarrow> \<forall>x \<in> snd ` set m. P x \<Longrightarrow> P v"
  by (force dest: map_of_SomeD)

section \<open>Standard library: decimal numerals\<close>

text \<open>\<open>strconv.Itoa\<close>, and \<open>%d\<close> of the \<open>fmt\<close> package.\<close>

definition digit_char :: "nat \<Rightarrow> char" where
  "digit_char d = char_of (48 + d)"

fun nat_digits :: "nat \<Rightarrow> string" where
  "nat_digits n =
     (if n < 10 then [digit_char n] else nat_digits (n div 10) @ [digit_char (n mod 10)])"

declare nat_digits.simps [simp del]

definition itoa :: "int \<Rightarrow> string" where
  "itoa i = (if i < 0 then CHR ''-'' # nat_digits (nat (- i)) else nat_digits (nat i))"

definition digit_val :: "char \<Rightarrow> nat" where
  "digit_val c = of_char c - 48"

definition parse_digits :: "string \<Rightarrow> nat" where
  "parse_digits s = foldl (\<lambda>n c. 10 * n + digit_val c) 0 s"

lemma digit_val_char [simp]: "d < 10 \<Longrightarrow> digit_val (digit_char d) = d"
  by (simp add: digit_val_def digit_char_def)

lemma parse_nat_digits [simp]: "parse_digits (nat_digits n) = n"
proof (induction n rule: nat_digits.induct)
  case (1 n)
  then show ?case
    by (cases "n < 10") (simp_all add: nat_digits.simps [of n] parse_digits_def)
qed

lemma nat_digits_inject [simp]: "nat_digits m = nat_digits n \<longleftrightarrow> m = n"
  by (metis parse_nat_digits)

section \<open>Standard library: conversion of an unsigned integer to \<open>float64\<close>\<close>

text \<open>
  The Go conversion \<open>float64(x)\<close> of a \<open>uint64\<close> rounds to the nearest IEEE 754 double, ties to
  even. A \<open>float64\<close> is its bit pattern. \<open>float64_nat\<close> reads the pattern of a non-negative
  double that is a whole number (it truncates any other).
\<close>

definition round_half_even :: "nat \<Rightarrow> nat \<Rightarrow> nat" where
  "round_half_even n s =
     (let q = n div 2 ^ s; r = n mod 2 ^ s; h = 2 ^ (s - 1)
      in if r < h then q else if h < r then Suc q else if even q then q else Suc q)"

fun bit_length :: "nat \<Rightarrow> nat" where
  "bit_length n = (if n = 0 then 0 else Suc (bit_length (n div 2)))"

declare bit_length.simps [simp del]

definition float64_bits :: "nat \<Rightarrow> nat" where
  "float64_bits n =
     (if n = 0 then 0
      else let e = bit_length n - 1;
               m = (if e \<le> 52 then n * 2 ^ (52 - e) else round_half_even n (e - 52))
           in (e + 1023) * 2 ^ 52 + m - 2 ^ 52)"

definition float64_of_u64 :: "64 word \<Rightarrow> float64" where
  "float64_of_u64 x = word_of_nat (float64_bits (unat x))"

definition float64_nat :: "float64 \<Rightarrow> nat" where
  "float64_nat f =
     (let b = unat f; e = b div 2 ^ 52; m = b mod 2 ^ 52
      in if e < 1023 then 0
         else if e - 1023 \<le> 52 then (2 ^ 52 + m) div 2 ^ (52 - (e - 1023))
         else (2 ^ 52 + m) * 2 ^ (e - 1023 - 52))"

lemma bit_length_bounds: "n \<noteq> 0 \<Longrightarrow> 2 ^ (bit_length n - 1) \<le> n \<and> n < 2 ^ bit_length n"
proof (induction n rule: bit_length.induct)
  case (1 n)
  show ?case
  proof (cases "n div 2 = 0")
    case True
    with "1.prems" have "n = 1" by arith
    then show ?thesis by (simp add: bit_length.simps)
  next
    case False
    define k where "k = bit_length (n div 2)"
    from False "1.IH" "1.prems"
    have b: "2 ^ (k - 1) \<le> n div 2" "n div 2 < 2 ^ k" by (simp_all add: k_def)
    from False have "k \<noteq> 0" by (simp add: k_def bit_length.simps [of "n div 2"])
    then obtain j where j: "k = Suc j" by (cases k) auto
    have "bit_length n = Suc k"
      using "1.prems" by (simp add: k_def bit_length.simps [of n])
    moreover from b(1) j have "2 ^ Suc j \<le> n" by simp
    moreover from b(2) j have "n < 2 * 2 ^ Suc j" by simp
    ultimately show ?thesis using j by simp
  qed
qed

text \<open>Every integer below \<open>2 ^ 53\<close> is converted exactly.\<close>

lemma float64_exact:
  assumes "unat x < 2 ^ 53"
  shows "float64_nat (float64_of_u64 x) = unat x"
proof (cases "unat x = 0")
  case True
  then show ?thesis by (simp add: float64_of_u64_def float64_bits_def float64_nat_def)
next
  case False
  define n where "n = unat x"
  define e where "e = bit_length n - 1"
  have n0: "n \<noteq> 0" using False by (simp add: n_def)
  have bl: "2 ^ e \<le> n" "n < 2 ^ Suc e"
  proof -
    have "bit_length n \<noteq> 0" using n0 by (simp add: bit_length.simps)
    then have "bit_length n = Suc e" by (simp add: e_def)
    then show "2 ^ e \<le> n" "n < 2 ^ Suc e"
      using bit_length_bounds [OF n0] by simp_all
  qed
  have e52: "e \<le> 52"
  proof (rule ccontr)
    assume "\<not> e \<le> 52"
    then have "(2::nat) ^ 53 \<le> 2 ^ e" by (intro power_increasing) auto
    with bl assms show False by (simp add: n_def)
  qed
  define m where "m = n * 2 ^ (52 - e)"
  have split: "(2::nat) ^ 52 = 2 ^ e * 2 ^ (52 - e)" "(2::nat) ^ 53 = 2 ^ Suc e * 2 ^ (52 - e)"
    using e52 by (simp_all flip: power_add)
  have m_ge: "2 ^ 52 \<le> m" using bl(1) unfolding m_def split(1) by (rule mult_le_mono1)
  have m_lt: "m < 2 ^ 53" using bl(2) unfolding m_def split(2) by simp
  define b where "b = (e + 1023) * 2 ^ 52 + (m - 2 ^ 52)"
  have e_eq: "bit_length n - Suc 0 = e" by (simp add: e_def)
  have bits: "float64_bits n = b"
    using n0 e52 m_ge by (simp add: float64_bits_def Let_def b_def e_eq flip: m_def)
  have frac: "m - 2 ^ 52 < 2 ^ 52" using m_lt by simp
  have "b < 2 ^ 64"
  proof -
    have "(e + 1023) * 2 ^ 52 \<le> 1075 * 2 ^ 52" using e52 by (intro mult_le_mono1) simp
    with frac have "b < 1075 * 2 ^ 52 + 2 ^ 52" unfolding b_def by linarith
    then show ?thesis by simp
  qed
  then have ub: "unat (float64_of_u64 x) = b"
    by (simp add: float64_of_u64_def bits n_def [symmetric] unat_of_nat)
  have bmod: "b mod 2 ^ 52 = m - 2 ^ 52"
    unfolding b_def using frac by (simp only: mod_mult_self3 mod_less)
  have bdiv: "b div 2 ^ 52 = e + 1023"
    unfolding b_def using frac by simp
  have "(2 ^ 52 + (m - 2 ^ 52)) div 2 ^ (52 - e) = n"
    using m_ge by (simp add: m_def)
  then show ?thesis
    unfolding float64_nat_def Let_def ub bdiv bmod using e52 by (simp add: n_def)
qed

section \<open>Standard library: trimming\<close>

definition trimLeft :: "string \<Rightarrow> char \<Rightarrow> string" where
  "trimLeft s c = dropWhile (\<lambda>x. x = c) s"

definition trimRight :: "string \<Rightarrow> char \<Rightarrow> string" where
  "trimRight s c = rev (dropWhile (\<lambda>x. x = c) (rev s))"

lemma trimLeft_hd: "trimLeft s c \<noteq> [] \<Longrightarrow> hd (trimLeft s c) \<noteq> c"
  using hd_dropWhile [of "\<lambda>x. x = c" s] by (simp add: trimLeft_def)

lemma trimRight_trimLeft: "trimRight s c = rev (trimLeft (rev s) c)"
  by (simp add: trimRight_def trimLeft_def)

lemma trimRight_last: "trimRight s c \<noteq> [] \<Longrightarrow> last (trimRight s c) \<noteq> c"
  by (simp add: trimRight_trimLeft last_rev trimLeft_hd)

section \<open>Generic lemmas\<close>

lemma length_filter_upd:
  assumes "i < length xs"
  shows "length (filter P (xs[i := y])) + (if P (xs ! i) then 1 else 0) =
         length (filter P xs) + (if P y then 1 else 0)"
  using assms
proof (induction xs arbitrary: i)
  case (Cons x xs)
  then show ?case by (cases i) auto
qed simp

lemma mset_concat_upd:
  assumes "i < length xs"
  shows "mset (concat (map f (xs[i := y]))) + mset (f (xs ! i)) = mset (concat (map f xs)) + mset (f y)"
  using assms
proof (induction xs arbitrary: i)
  case (Cons x xs)
  then show ?case by (cases i) (auto simp: ac_simps)
qed simp

lemma take_append_fits: "length xs \<le> n \<Longrightarrow> take n (xs @ ys) = xs @ take (n - length xs) ys"
  by simp

end
