(* ===== verification/Config.thy ===== *)
theory Config
  imports Prelude
begin

text \<open>
  \<open>config.go\<close>: the configuration and its default intervals, in nanoseconds as a Go \<open>time.Duration\<close>.
  \<open>DiagnosticsManager\<close> is a pointer to an object with state of its own: the record says whether
  there is one, and the object is passed beside it. The logger, the sender and the clock are
  arguments of the definitions that use them.
\<close>

definition second :: "int" where "second = 1000000000"
definition minute :: "int" where "minute = 60 * second"

definition DefaultDiagnosticRecordingInterval :: "int" where
  "DefaultDiagnosticRecordingInterval = 15 * minute"

definition MinimumDiagnosticRecordingInterval :: "int" where
  "MinimumDiagnosticRecordingInterval = 1 * minute"

definition DefaultFlushInterval :: "int" where
  "DefaultFlushInterval = 5 * second"

definition DefaultUserKeysFlushInterval :: "int" where
  "DefaultUserKeysFlushInterval = 5 * minute"

record 'a EventsConfiguration =
  cg_AllAttributesPrivate :: "bool"
  cg_Capacity :: "int"
  cg_DiagnosticRecordingInterval :: "int"
  cg_HasDiagnosticsManager :: "bool"
  cg_FlushInterval :: "int"
  cg_LogUserKeyInErrors :: "bool"
  cg_PrivateAttributes :: "'a list"
  cg_UserKeysCapacity :: "int"
  cg_UserKeysFlushInterval :: "int"
  cg_forceDiagnosticRecordingInterval :: "int"
  cg_forceSampling :: "bool"

lemmas interval_defs =
  second_def minute_def DefaultDiagnosticRecordingInterval_def MinimumDiagnosticRecordingInterval_def
  DefaultFlushInterval_def DefaultUserKeysFlushInterval_def

end
