(* ===== verification/Sdk_Common.thy ===== *)
theory Sdk_Common
  imports Prelude
begin

text \<open>
  The packages the code imports and that are not part of the repository (\<open>go-sdk-common\<close>:
  \<open>ldvalue\<close>, \<open>ldcontext\<close>, \<open>ldattr\<close>, \<open>ldreason\<close>, \<open>ldsampling\<close>) are parameters of the model. Their
  opaque types are type variables: \<open>'v\<close> for \<open>ldvalue.Value\<close>, \<open>'c\<close> for \<open>ldcontext.Context\<close>,
  \<open>'a\<close> for \<open>ldattr.Ref\<close>, \<open>'r\<close> for \<open>ldreason.EvaluationReason\<close>. The functions the code calls on
  them are the fields of the records below, passed as arguments to the definitions that call
  them. What some theorems need of these packages are the named predicates at the end, each a
  documented behaviour; \<open>OptionalInt\<close> and \<open>OptionalString\<close> are \<open>option\<close> types.
\<close>

section \<open>ldvalue\<close>

datatype value_type = NullType | BoolType | NumberType | StringType | ArrayType | ObjectType | RawType

record 'v value_api =
  v_type :: "'v \<Rightarrow> value_type"
  v_keys :: "'v \<Rightarrow> string list"
  v_get :: "'v \<Rightarrow> string \<Rightarrow> 'v"
  v_null :: "'v"
  v_bool :: "bool \<Rightarrow> 'v"
  v_int :: "int \<Rightarrow> 'v"
  v_float :: "float64 \<Rightarrow> 'v"
  v_string :: "string \<Rightarrow> 'v"
  v_array :: "'v list \<Rightarrow> 'v"
  v_object :: "(string \<times> 'v) list \<Rightarrow> 'v"

definition v_isNull :: "('v, 'z) value_api_scheme \<Rightarrow> 'v \<Rightarrow> bool" where
  "v_isNull V v \<longleftrightarrow> v_type V v = NullType"

definition v_isDefined :: "('v, 'z) value_api_scheme \<Rightarrow> 'v \<Rightarrow> bool" where
  "v_isDefined V v \<longleftrightarrow> \<not> v_isNull V v"

section \<open>ldattr\<close>

record 'a ref_api =
  a_depth :: "'a \<Rightarrow> nat"
  a_component :: "'a \<Rightarrow> nat \<Rightarrow> string"
  a_string :: "'a \<Rightarrow> string"
  a_newLiteralRef :: "string \<Rightarrow> 'a"

text \<open>The path of a reference: what the loops over \<open>Depth()\<close> and \<open>Component(i)\<close> visit.\<close>

definition ref_path :: "('a, 'z) ref_api_scheme \<Rightarrow> 'a \<Rightarrow> string list" where
  "ref_path A a = map (a_component A a) [0..<a_depth A a]"

lemma length_ref_path [simp]: "length (ref_path A a) = a_depth A a"
  by (simp add: ref_path_def)

lemma nth_ref_path [simp]: "i < a_depth A a \<Longrightarrow> ref_path A a ! i = a_component A a i"
  by (simp add: ref_path_def)

section \<open>ldcontext\<close>

record ('c, 'v, 'a) context_api =
  c_err :: "'c \<Rightarrow> string option"
  c_multiple :: "'c \<Rightarrow> bool"
  c_isDefined :: "'c \<Rightarrow> bool"
  c_kind :: "'c \<Rightarrow> string"
  c_key :: "'c \<Rightarrow> string"
  c_fullyQualifiedKey :: "'c \<Rightarrow> string"
  c_anonymous :: "'c \<Rightarrow> bool"
  c_optionalAttributeNames :: "'c \<Rightarrow> string list"
  c_getValue :: "'c \<Rightarrow> string \<Rightarrow> 'v"
  c_individualContextCount :: "'c \<Rightarrow> nat"
  c_individualContextByIndex :: "'c \<Rightarrow> nat \<Rightarrow> 'c"
  c_privateAttributeCount :: "'c \<Rightarrow> nat"
  c_privateAttributeByIndex :: "'c \<Rightarrow> nat \<Rightarrow> 'a"

text \<open>
  The loop \<open>for i := 0; i < c.IndividualContextCount(); i++\<close> with its guard
  \<open>ic := c.IndividualContextByIndex(i); ic.IsDefined()\<close>, which three functions of the package
  share, visits these contexts in this order.
\<close>

definition individualContexts :: "('c, 'v, 'a, 'z) context_api_scheme \<Rightarrow> 'c \<Rightarrow> 'c list" where
  "individualContexts C c =
     filter (c_isDefined C)
       (map (c_individualContextByIndex C c) [0..<c_individualContextCount C c])"

definition privateRefs :: "('c, 'v, 'a, 'z) context_api_scheme \<Rightarrow> 'c \<Rightarrow> 'a list" where
  "privateRefs C c =
     map (c_privateAttributeByIndex C c) [0..<c_privateAttributeCount C c]"

section \<open>ldreason, ldmigration\<close>

record 'r reason_api =
  r_getKind :: "'r \<Rightarrow> string"
  r_zero :: "'r"

record ('v, 'r) EvaluationDetail =
  det_Value :: "'v"
  det_VariationIndex :: "optInt"
  det_Reason :: "'r"

text \<open>What the methods \<open>Consistent()\<close> and \<open>SamplingRatio()\<close> of a consistency check return.\<close>

record ConsistencyCheck =
  cc_Consistent :: "bool"
  cc_SamplingRatio :: "int"

section \<open>ldsampling\<close>

text \<open>
  \<open>Sample\<close> draws from the sampler's own random state \<open>'s\<close>: it returns the decision and the
  state after the draw.
\<close>

type_synonym 's sampler = "'s \<Rightarrow> int \<Rightarrow> bool \<times> 's"

section \<open>Named hypotheses: documented behaviour of those packages\<close>

text \<open>
  \<open>ldvalue.Value\<close> is a finite JSON value: the properties of an object are smaller than the
  object. The measure \<open>d\<close> is any nesting depth.
\<close>

definition value_finite :: "('v, 'z) value_api_scheme \<Rightarrow> ('v \<Rightarrow> nat) \<Rightarrow> bool" where
  "value_finite V d \<longleftrightarrow>
     (\<forall>v k. v_type V v = ObjectType \<longrightarrow> k \<in> set (v_keys V v) \<longrightarrow> d (v_get V v k) < d v)"

text \<open>\<open>Sample\<close> with a ratio of one always selects; with a ratio of zero or less, never.\<close>

definition sampler_law :: "'s sampler \<Rightarrow> bool" where
  "sampler_law smp \<longleftrightarrow> (\<forall>s. fst (smp s 1) \<and> (\<forall>n \<le> 0. \<not> fst (smp s n)))"

text \<open>The zero value of \<open>ldreason.EvaluationReason\<close> has no kind.\<close>

definition reason_law :: "'r reason_api \<Rightarrow> bool" where
  "reason_law R \<longleftrightarrow> r_getKind R (r_zero R) = []"

lemma value_finiteD:
  "value_finite V d \<Longrightarrow> v_type V v = ObjectType \<Longrightarrow> k \<in> set (v_keys V v) \<Longrightarrow> d (v_get V v k) < d v"
  by (simp add: value_finite_def)

lemma sampler_lawD:
  assumes "sampler_law smp"
  shows "fst (smp s 1)" and "n \<le> 0 \<Longrightarrow> \<not> fst (smp s n)"
  using assms by (auto simp: sampler_law_def)

end
