(* ===== verification/Inputs.thy ===== *)
theory Inputs
  imports Sdk_Common
begin

text \<open>
  \<open>inputs.go\<close>: the data of the events, as records with the source's fields, and
  \<open>EventFactory\<close>, which builds them. \<open>anyEventInput\<close> and \<open>anyEventOutput\<close> are both
  \<open>interface{}\<close> in the code; \<open>anyEvent\<close> has one constructor for each concrete type that is
  put into them.
\<close>

section \<open>Event data\<close>

record 'c EventInputContext =
  ec_context :: "'c"
  ec_preserialized :: "bytes option"

definition Context :: "'c \<Rightarrow> 'c EventInputContext" where
  "Context context = \<lparr>ec_context = context, ec_preserialized = None\<rparr>"

definition PreserializedContext :: "'c \<Rightarrow> bytes option \<Rightarrow> 'c EventInputContext" where
  "PreserializedContext context jsonData =
     \<lparr>ec_context = context, ec_preserialized = jsonData\<rparr>"

record 'c BaseEvent =
  be_CreationDate :: "millis"
  be_Context :: "'c EventInputContext"

record ('c, 'v, 'r) EvaluationData =
  ed_BaseEvent :: "'c BaseEvent"
  ed_Key :: "string"
  ed_Variation :: "optInt"
  ed_Value :: "'v"
  ed_Default :: "'v"
  ed_Version :: "optInt"
  ed_PrereqOf :: "optString"
  ed_Reason :: "'r"
  ed_RequireFullEvent :: "bool"
  ed_DebugEventsUntilDate :: "millis"
  ed_SamplingRatio :: "optInt"
  ed_ForceSampling :: "bool"
  ed_ExcludeFromSummaries :: "bool"
  ed_debug :: "bool"

record ('c, 'v) CustomEventData =
  cu_BaseEvent :: "'c BaseEvent"
  cu_Key :: "string"
  cu_Data :: "'v"
  cu_HasMetric :: "bool"
  cu_MetricValue :: "float64"
  cu_SamplingRatio :: "optInt"
  cu_ForceSampling :: "bool"

record 'c IdentifyEventData =
  id_BaseEvent :: "'c BaseEvent"
  id_SamplingRatio :: "optInt"
  id_ForceSampling :: "bool"

text \<open>
  \<open>Invoked\<close>, \<open>Error\<close> and \<open>Latency\<close> are maps from an origin; the first two have no values, and
  are lists of distinct keys. An operation, a stage and an origin of \<open>ldmigration\<close> are strings.
\<close>

record ('c, 'v, 'r) MigrationOpEventData =
  mo_BaseEvent :: "'c BaseEvent"
  mo_Op :: "string"
  mo_FlagKey :: "string"
  mo_Version :: "optInt"
  mo_Evaluation :: "('v, 'r) EvaluationDetail"
  mo_Default :: "string"
  mo_SamplingRatio :: "optInt"
  mo_ForceSampling :: "bool"
  mo_ConsistencyCheck :: "ConsistencyCheck option"
  mo_Invoked :: "string list"
  mo_Error :: "string list"
  mo_Latency :: "(string, int) gomap"

datatype ('c, 'v, 'r) anyEvent =
    Evaluation "('c, 'v, 'r) EvaluationData"
  | Identify "'c IdentifyEventData"
  | Custom "('c, 'v) CustomEventData"
  | MigrationOp "('c, 'v, 'r) MigrationOpEventData"
  | Index "'c BaseEvent"
  | RawEvent bytes

section \<open>EventFactory\<close>

record FlagEventProperties =
  fp_Key :: "string"
  fp_Version :: "int"
  fp_RequireFullEvent :: "bool"
  fp_DebugEventsUntilDate :: "millis"

text \<open>
  The factory's \<open>timeFn\<close> reads a clock; \<open>'w\<close> is the world it reads, passed to each call.
\<close>

record 'w EventFactory =
  ef_includeReasons :: "bool"
  ef_timeFn :: "'w \<Rightarrow> millis"

definition NewEventFactory ::
  "('w \<Rightarrow> millis) \<Rightarrow> bool \<Rightarrow> ('w \<Rightarrow> millis) option \<Rightarrow> 'w EventFactory" where
  "NewEventFactory unixMillisNow includeReasons timeFn =
     \<lparr>ef_includeReasons = includeReasons,
      ef_timeFn = (case timeFn of None \<Rightarrow> unixMillisNow | Some f \<Rightarrow> f)\<rparr>"

definition NewUnknownFlagEvaluationData ::
  "'r reason_api \<Rightarrow> 'w EventFactory \<Rightarrow> 'w \<Rightarrow> string \<Rightarrow> 'c EventInputContext \<Rightarrow> 'v \<Rightarrow> 'r \<Rightarrow>
   ('c, 'v, 'r) EvaluationData" where
  "NewUnknownFlagEvaluationData R f w key context defaultVal reason =
     (let ed = \<lparr>ed_BaseEvent = \<lparr>be_CreationDate = ef_timeFn f w, be_Context = context\<rparr>,
                ed_Key = key, ed_Variation = None, ed_Value = defaultVal,
                ed_Default = defaultVal, ed_Version = None, ed_PrereqOf = None,
                ed_Reason = r_zero R, ed_RequireFullEvent = False,
                ed_DebugEventsUntilDate = 0, ed_SamplingRatio = None,
                ed_ForceSampling = False, ed_ExcludeFromSummaries = False, ed_debug = False\<rparr>
      in if ef_includeReasons f then ed\<lparr>ed_Reason := reason\<rparr> else ed)"

definition NewEvaluationData ::
  "'r reason_api \<Rightarrow> 'w EventFactory \<Rightarrow> 'w \<Rightarrow> FlagEventProperties \<Rightarrow> 'c EventInputContext \<Rightarrow>
   ('v, 'r) EvaluationDetail \<Rightarrow> bool \<Rightarrow> 'v \<Rightarrow> string \<Rightarrow> optInt \<Rightarrow> bool \<Rightarrow>
   ('c, 'v, 'r) EvaluationData" where
  "NewEvaluationData R f w flagProps context detail isExperiment defaultVal prereqOf
       samplingRatio excludeFromSummaries =
     (let ed = \<lparr>ed_BaseEvent = \<lparr>be_CreationDate = ef_timeFn f w, be_Context = context\<rparr>,
                ed_Key = fp_Key flagProps,
                ed_Variation = det_VariationIndex detail,
                ed_Value = det_Value detail,
                ed_Default = defaultVal,
                ed_Version = Some (fp_Version flagProps),
                ed_PrereqOf = None,
                ed_Reason = r_zero R,
                ed_RequireFullEvent = (isExperiment \<or> fp_RequireFullEvent flagProps),
                ed_DebugEventsUntilDate = fp_DebugEventsUntilDate flagProps,
                ed_SamplingRatio = samplingRatio,
                ed_ForceSampling = False,
                ed_ExcludeFromSummaries = excludeFromSummaries,
                ed_debug = False\<rparr>;
          ed = (if ef_includeReasons f \<or> isExperiment
                then ed\<lparr>ed_Reason := det_Reason detail\<rparr> else ed)
      in if prereqOf \<noteq> [] then ed\<lparr>ed_PrereqOf := Some prereqOf\<rparr> else ed)"

definition NewCustomEventData ::
  "'w EventFactory \<Rightarrow> 'w \<Rightarrow> string \<Rightarrow> 'c EventInputContext \<Rightarrow> 'v \<Rightarrow> bool \<Rightarrow> float64 \<Rightarrow> optInt \<Rightarrow>
   ('c, 'v) CustomEventData" where
  "NewCustomEventData f w key context data withMetric metricValue samplingRatio =
     \<lparr>cu_BaseEvent = \<lparr>be_CreationDate = ef_timeFn f w, be_Context = context\<rparr>,
      cu_Key = key, cu_Data = data, cu_HasMetric = withMetric, cu_MetricValue = metricValue,
      cu_SamplingRatio = samplingRatio, cu_ForceSampling = False\<rparr>"

definition NewIdentifyEventData ::
  "'w EventFactory \<Rightarrow> 'w \<Rightarrow> 'c EventInputContext \<Rightarrow> optInt \<Rightarrow> 'c IdentifyEventData" where
  "NewIdentifyEventData f w context samplingRatio =
     \<lparr>id_BaseEvent = \<lparr>be_CreationDate = ef_timeFn f w, be_Context = context\<rparr>,
      id_SamplingRatio = samplingRatio, id_ForceSampling = False\<rparr>"

end
