(* ===== verification/Sample_Sdk.thy ===== *)
theory Sample_Sdk
  imports Inputs
begin

text \<open>
  One concrete instance of the imported packages' interfaces, for the witnesses: JSON values as
  a datatype, single and multi-kind contexts, attribute references as paths, a reason as a
  string and a deterministic sampler. No definition of the model and no property depends on it;
  it shows that the named hypotheses of \<open>Sdk_Common\<close> can hold together.
\<close>

datatype sval =
    SNull
  | SBool bool
  | SNum int
  | SFloat float64
  | SStr string
  | SArr "sval list"
  | SObj "(string \<times> sval) list"

fun s_type :: "sval \<Rightarrow> value_type" where
  "s_type SNull = NullType"
| "s_type (SBool _) = BoolType"
| "s_type (SNum _) = NumberType"
| "s_type (SFloat _) = NumberType"
| "s_type (SStr _) = StringType"
| "s_type (SArr _) = ArrayType"
| "s_type (SObj _) = ObjectType"

fun s_keys :: "sval \<Rightarrow> string list" where
  "s_keys (SObj m) = map fst m"
| "s_keys _ = []"

fun s_get :: "sval \<Rightarrow> string \<Rightarrow> sval" where
  "s_get (SObj m) k = (case map_of m k of Some v \<Rightarrow> v | None \<Rightarrow> SNull)"
| "s_get _ k = SNull"

definition sampleV :: "sval value_api" where
  "sampleV = \<lparr>v_type = s_type, v_keys = s_keys, v_get = s_get, v_null = SNull, v_bool = SBool,
     v_int = SNum, v_float = SFloat, v_string = SStr, v_array = SArr, v_object = SObj\<rparr>"

definition sampleA :: "string list ref_api" where
  "sampleA = \<lparr>a_depth = length, a_component = (\<lambda>p i. p ! i),
     a_string = (\<lambda>p. concat (map (\<lambda>s. CHR ''/'' # s) p)), a_newLiteralRef = (\<lambda>s. [s])\<rparr>"

record sctx1 =
  s_kind :: "string"
  s_key :: "string"
  s_anonymous :: "bool"
  s_attrs :: "(string \<times> sval) list"
  s_private :: "string list list"

datatype sctx = SSingle sctx1 | SMulti "sctx1 list" | SInvalid string

fun s_parts :: "sctx \<Rightarrow> sctx1 list" where
  "s_parts (SSingle c) = [c]"
| "s_parts (SMulti cs) = cs"
| "s_parts (SInvalid _) = []"

definition s_one :: "sctx \<Rightarrow> sctx1" where
  "s_one c = (case c of SSingle c \<Rightarrow> c
     | _ \<Rightarrow> \<lparr>s_kind = ''multi'', s_key = [], s_anonymous = False, s_attrs = [], s_private = []\<rparr>)"

definition sampleC :: "(sctx, sval, string list) context_api" where
  "sampleC =
     \<lparr>c_err = (\<lambda>c. case c of SInvalid e \<Rightarrow> Some e | _ \<Rightarrow> None),
      c_multiple = (\<lambda>c. case c of SMulti _ \<Rightarrow> True | _ \<Rightarrow> False),
      c_isDefined = (\<lambda>c. case c of SInvalid _ \<Rightarrow> False | _ \<Rightarrow> True),
      c_kind = (\<lambda>c. s_kind (s_one c)),
      c_key = (\<lambda>c. s_key (s_one c)),
      c_fullyQualifiedKey = (\<lambda>c. concat (map (\<lambda>p. s_kind p @ '':'' @ s_key p) (s_parts c))),
      c_anonymous = (\<lambda>c. s_anonymous (s_one c)),
      c_optionalAttributeNames = (\<lambda>c. map fst (s_attrs (s_one c))),
      c_getValue = (\<lambda>c k. case map_of (s_attrs (s_one c)) k of Some v \<Rightarrow> v | None \<Rightarrow> SNull),
      c_individualContextCount = (\<lambda>c. length (s_parts c)),
      c_individualContextByIndex =
        (\<lambda>c i. if i < length (s_parts c) then SSingle (s_parts c ! i) else SInvalid []),
      c_privateAttributeCount = (\<lambda>c. length (s_private (s_one c))),
      c_privateAttributeByIndex = (\<lambda>c i. s_private (s_one c) ! i)\<rparr>"

definition sampleR :: "string reason_api" where
  "sampleR = \<lparr>r_getKind = (\<lambda>r. r), r_zero = []\<rparr>"

text \<open>Samples one event in \<open>n\<close>: the state counts the draws.\<close>

definition sampleS :: "nat sampler" where
  "sampleS s n = (n = 1 \<or> 1 < n \<and> int s mod n = 0, Suc s)"

definition sampleUser :: "string \<Rightarrow> sctx" where
  "sampleUser k =
     SSingle \<lparr>s_kind = ''user'', s_key = k, s_anonymous = False, s_attrs = [], s_private = []\<rparr>"

definition sampleEval :: "string \<Rightarrow> int \<Rightarrow> millis \<Rightarrow> (sctx, sval, string) EvaluationData" where
  "sampleEval flag var date =
     \<lparr>ed_BaseEvent = \<lparr>be_CreationDate = date, be_Context = Context (sampleUser ''u'')\<rparr>,
      ed_Key = flag, ed_Variation = Some var, ed_Value = SNum var, ed_Default = SNull,
      ed_Version = Some 1, ed_PrereqOf = None, ed_Reason = [], ed_RequireFullEvent = True,
      ed_DebugEventsUntilDate = 0, ed_SamplingRatio = None, ed_ForceSampling = False,
      ed_ExcludeFromSummaries = False, ed_debug = False\<rparr>"

fun s_depth :: "sval \<Rightarrow> nat" where
  "s_depth (SArr xs) = Suc (sum_list (map s_depth xs))"
| "s_depth (SObj m) = Suc (sum_list (map (\<lambda>(k, v). s_depth v) m))"
| "s_depth _ = 0"

lemma s_depth_get: "(k, v) \<in> set m \<Longrightarrow> s_depth v < s_depth (SObj m)"
  by (induction m) auto

lemma ref_path_sample [simp]: "ref_path sampleA p = p"
  by (simp add: ref_path_def sampleA_def map_nth)

lemma value_finite_sample [simp]: "value_finite sampleV s_depth"
  unfolding value_finite_def
proof (intro allI impI)
  fix v k
  assume "v_type sampleV v = ObjectType" and k: "k \<in> set (v_keys sampleV v)"
  then obtain m where m: "v = SObj m" by (cases v) (auto simp: sampleV_def)
  with k have "map_of m k \<noteq> None" by (simp add: sampleV_def map_of_eq_None_iff)
  then obtain w where "map_of m k = Some w" by blast
  then show "s_depth (v_get sampleV v k) < s_depth v"
    using s_depth_get [OF map_of_SomeD] by (simp add: sampleV_def m)
qed

lemma sampler_law_sample [simp]: "sampler_law sampleS"
  by (simp add: sampler_law_def sampleS_def)

lemmas sample_simps =
  sampleV_def sampleA_def sampleC_def sampleR_def sampleS_def sampleUser_def sampleEval_def
  s_one_def Context_def individualContexts_def privateRefs_def upt_rec

end
