(* ===== verification/Event_Summarizer.thy ===== *)
theory Event_Summarizer
  imports Sample_Sdk
begin

text \<open>
  \<open>event_summarizer.go\<close>: the counters of evaluations that go into the summary event. A flag's
  entry is keyed by the flag key, a counter by the pair of variation and version. The code
  holds the inner maps and the counters by reference and updates them in place; the model
  writes the changed flag entry back into the map, which is the same because the summarizer's
  state is the only holder of the reference while it is updated. A counter is a 64-bit Go
  \<open>int\<close>, kept at its width.
\<close>

section \<open>The code\<close>

record counterKey =
  ck_variation :: "optInt"
  ck_version :: "optInt"

record 'v counterValue =
  cv_count :: "gocount"
  cv_flagValue :: "'v"

record 'v flagSummary =
  fs_counters :: "(counterKey, 'v counterValue) gomap"
  fs_contextKinds :: "string list"
  fs_defaultValue :: "'v"

record 'v eventSummary =
  es_flags :: "(string, 'v flagSummary) gomap"
  es_startDate :: "millis"
  es_endDate :: "millis"

record 'v eventSummarizer =
  eventsState :: "'v eventSummary"

definition newEventSummary :: "'v eventSummary" where
  "newEventSummary = \<lparr>es_flags = [], es_startDate = 0, es_endDate = 0\<rparr>"

definition newEventSummarizer :: "'v eventSummarizer" where
  "newEventSummarizer = \<lparr>eventsState = newEventSummary\<rparr>"

definition hasCounters :: "'v eventSummary \<Rightarrow> bool" where
  "hasCounters s \<longleftrightarrow> length (es_flags s) \<noteq> 0"

text \<open>\<open>flag.contextKinds[k] = struct{}{}\<close>: a set, as a list of distinct kinds.\<close>

definition addKind :: "string \<Rightarrow> string list \<Rightarrow> string list" where
  "addKind k ks = (if k \<in> set ks then ks else ks @ [k])"

text \<open>The part of \<open>summarizeEvent\<close> that updates the flag's entry: its counter and its kinds.\<close>

definition summarizeFlag ::
  "('c, 'v, 'a, 'z) context_api_scheme \<Rightarrow> 'v flagSummary \<Rightarrow> ('c, 'v, 'r) EvaluationData \<Rightarrow>
   'v flagSummary" where
  "summarizeFlag C flag ed =
     (let key = \<lparr>ck_variation = ed_Variation ed, ck_version = ed_Version ed\<rparr>;
          cv = (case map_of (fs_counters flag) key of
                  Some v \<Rightarrow> v\<lparr>cv_count := cv_count v + 1\<rparr>
                | None \<Rightarrow> \<lparr>cv_count = 1, cv_flagValue = ed_Value ed\<rparr>)
      in flag\<lparr>fs_counters := AList.update key cv (fs_counters flag),
              fs_contextKinds :=
                fold (\<lambda>ic. addKind (c_kind C ic))
                  (individualContexts C (ec_context (be_Context (ed_BaseEvent ed))))
                  (fs_contextKinds flag)\<rparr>)"

definition summarizeEvent ::
  "('c, 'v, 'a, 'z) context_api_scheme \<Rightarrow> 'v eventSummarizer \<Rightarrow> ('c, 'v, 'r) EvaluationData \<Rightarrow>
   'v eventSummarizer" where
  "summarizeEvent C s ed =
     (let st = eventsState s;
          flag = (case map_of (es_flags st) (ed_Key ed) of
                    Some flag \<Rightarrow> flag
                  | None \<Rightarrow> \<lparr>fs_counters = [], fs_contextKinds = [],
                             fs_defaultValue = ed_Default ed\<rparr>);
          creationDate = be_CreationDate (ed_BaseEvent ed);
          startDate = (if es_startDate st = 0 \<or> creationDate < es_startDate st
                       then creationDate else es_startDate st);
          endDate = (if creationDate > es_endDate st then creationDate else es_endDate st)
      in s\<lparr>eventsState :=
             \<lparr>es_flags = AList.update (ed_Key ed) (summarizeFlag C flag ed) (es_flags st),
              es_startDate = startDate, es_endDate = endDate\<rparr>\<rparr>)"

definition snapshot :: "'v eventSummarizer \<Rightarrow> 'v eventSummary" where
  "snapshot s = eventsState s"

definition summarizer_reset :: "'v eventSummarizer \<Rightarrow> 'v eventSummarizer" where
  "summarizer_reset s = s\<lparr>eventsState := newEventSummary\<rparr>"

section \<open>Reading a summary\<close>

definition counterKeyOf :: "('c, 'v, 'r) EvaluationData \<Rightarrow> counterKey" where
  "counterKeyOf ed = \<lparr>ck_variation = ed_Variation ed, ck_version = ed_Version ed\<rparr>"

definition counterOf :: "'v eventSummary \<Rightarrow> string \<Rightarrow> counterKey \<Rightarrow> 'v counterValue option" where
  "counterOf s fk key =
     (case map_of (es_flags s) fk of None \<Rightarrow> None | Some f \<Rightarrow> map_of (fs_counters f) key)"

definition kindsOf :: "'v eventSummary \<Rightarrow> string \<Rightarrow> string set" where
  "kindsOf s fk =
     (case map_of (es_flags s) fk of None \<Rightarrow> {} | Some f \<Rightarrow> set (fs_contextKinds f))"

definition defaultOf :: "'v eventSummary \<Rightarrow> string \<Rightarrow> 'v option" where
  "defaultOf s fk = map_option fs_defaultValue (map_of (es_flags s) fk)"

definition flag_wf :: "'v flagSummary \<Rightarrow> bool" where
  "flag_wf f \<longleftrightarrow> gomap_wf (fs_counters f) \<and> fs_counters f \<noteq> [] \<and> distinct (fs_contextKinds f)"

definition summary_wf :: "'v eventSummary \<Rightarrow> bool" where
  "summary_wf s \<longleftrightarrow> gomap_wf (es_flags s) \<and> (\<forall>f \<in> snd ` set (es_flags s). flag_wf f)"

lemma set_fold_addKind [simp]: "set (fold (\<lambda>ic. addKind (f ic)) xs ks) = set ks \<union> f ` set xs"
  by (induction xs arbitrary: ks) (auto simp: addKind_def)

lemma distinct_fold_addKind: "distinct ks \<Longrightarrow> distinct (fold (\<lambda>ic. addKind (f ic)) xs ks)"
  by (induction xs arbitrary: ks) (auto simp: addKind_def)

lemma eventsState_newSummarizer [simp]: "eventsState newEventSummarizer = newEventSummary"
  by (simp add: newEventSummarizer_def)

lemma eventsState_reset [simp]: "eventsState (summarizer_reset s) = newEventSummary"
  by (simp add: summarizer_reset_def)

lemma summary_wf_new [simp]: "summary_wf newEventSummary"
  by (simp add: summary_wf_def newEventSummary_def)

lemma hasCounters_new [simp]: "\<not> hasCounters newEventSummary"
  by (simp add: hasCounters_def newEventSummary_def)

section \<open>One step\<close>

lemma counterOf_summarize:
  "counterOf (eventsState (summarizeEvent C s ed)) fk key =
     (if fk = ed_Key ed \<and> key = counterKeyOf ed then
        Some (case counterOf (eventsState s) fk key of
                Some v \<Rightarrow> v\<lparr>cv_count := cv_count v + 1\<rparr>
              | None \<Rightarrow> \<lparr>cv_count = 1, cv_flagValue = ed_Value ed\<rparr>)
      else counterOf (eventsState s) fk key)"
  by (auto simp: counterOf_def summarizeEvent_def summarizeFlag_def Let_def counterKeyOf_def split: option.splits)

lemma kindsOf_summarize:
  "kindsOf (eventsState (summarizeEvent C s ed)) fk =
     (if fk = ed_Key ed then
        kindsOf (eventsState s) fk \<union>
        c_kind C ` set (individualContexts C (ec_context (be_Context (ed_BaseEvent ed))))
      else kindsOf (eventsState s) fk)"
  by (auto simp: kindsOf_def summarizeEvent_def summarizeFlag_def Let_def split: option.splits)

lemma defaultOf_summarize:
  "defaultOf (eventsState (summarizeEvent C s ed)) fk =
     (if fk = ed_Key ed \<and> defaultOf (eventsState s) fk = None then Some (ed_Default ed)
      else defaultOf (eventsState s) fk)"
  by (auto simp: defaultOf_def summarizeEvent_def summarizeFlag_def Let_def split: option.splits)

lemma dates_summarize:
  "es_startDate (eventsState (summarizeEvent C s ed)) =
     (let d = be_CreationDate (ed_BaseEvent ed); sd = es_startDate (eventsState s)
      in if sd = 0 \<or> d < sd then d else sd)"
  "es_endDate (eventsState (summarizeEvent C s ed)) =
     max (es_endDate (eventsState s)) (be_CreationDate (ed_BaseEvent ed))"
  by (auto simp: summarizeEvent_def summarizeFlag_def Let_def max_def)

lemma hasCounters_summarize [simp]: "hasCounters (eventsState (summarizeEvent C s ed))"
  by (simp add: summarizeEvent_def summarizeFlag_def Let_def hasCounters_def)

lemma flag_wf_summarize:
  "flag_wf f \<or> fs_counters f = [] \<and> fs_contextKinds f = [] \<Longrightarrow> flag_wf (summarizeFlag C f ed)"
  by (auto simp: flag_wf_def summarizeFlag_def Let_def distinct_fold_addKind)

lemma summary_wf_summarize:
  assumes "summary_wf (eventsState s)"
  shows "summary_wf (eventsState (summarizeEvent C s ed))"
proof -
  let ?m = "es_flags (eventsState s)"
  have wf: "gomap_wf ?m" and all: "\<forall>f \<in> snd ` set ?m. flag_wf f"
    using assms by (auto simp: summary_wf_def)
  define flag where "flag =
    (case map_of ?m (ed_Key ed) of
       Some flag \<Rightarrow> flag
     | None \<Rightarrow> \<lparr>fs_counters = [], fs_contextKinds = [], fs_defaultValue = ed_Default ed\<rparr>)"
  have "flag_wf flag \<or> fs_counters flag = [] \<and> fs_contextKinds flag = []"
    by (auto simp: flag_def split: option.split dest: map_of_all_values [OF _ all])
  then have "flag_wf (summarizeFlag C flag ed)" by (rule flag_wf_summarize)
  from update_all_values [OF wf all this] wf show ?thesis
    by (simp add: summary_wf_def summarizeEvent_def Let_def flag_def)
qed

section \<open>A run\<close>

definition summarizeAll ::
  "('c, 'v, 'a, 'z) context_api_scheme \<Rightarrow> 'v eventSummarizer \<Rightarrow> ('c, 'v, 'r) EvaluationData list \<Rightarrow>
   'v eventSummarizer" where
  "summarizeAll C s eds = fold (\<lambda>ed s. summarizeEvent C s ed) eds s"

lemma summarizeAll_simps [simp]:
  "summarizeAll C s [] = s"
  "summarizeAll C s (eds @ [ed]) = summarizeEvent C (summarizeAll C s eds) ed"
  by (simp_all add: summarizeAll_def)

definition matches :: "string \<Rightarrow> counterKey \<Rightarrow> ('c, 'v, 'r) EvaluationData \<Rightarrow> bool" where
  "matches fk key ed \<longleftrightarrow> ed_Key ed = fk \<and> counterKeyOf ed = key"

lemma summary_wf_run:
  "summary_wf (eventsState s) \<Longrightarrow> summary_wf (eventsState (summarizeAll C s eds))"
  by (induction eds rule: rev_induct) (simp_all add: summary_wf_summarize)

lemma counterOf_new [simp]: "counterOf newEventSummary fk key = None"
  by (simp add: counterOf_def newEventSummary_def)

lemma filter_Nil_hd_append:
  "hd (filter P xs @ [x]) = (if filter P xs = [] then x else hd (filter P xs))"
  by simp

text \<open>The counter a run must have for a flag and a pair of variation and version.\<close>

definition runCounter :: "('c, 'v, 'r) EvaluationData list \<Rightarrow> 'v counterValue" where
  "runCounter ms = \<lparr>cv_count = word_of_nat (length ms), cv_flagValue = ed_Value (hd ms)\<rparr>"

lemma counterOf_run:
  "counterOf (eventsState (summarizeAll C newEventSummarizer eds)) fk key =
     (if filter (matches fk key) eds = [] then None
      else Some (runCounter (filter (matches fk key) eds)))"
proof (induction eds rule: rev_induct)
  case (snoc ed eds)
  then show ?case
    by (auto simp: counterOf_summarize matches_def [abs_def] runCounter_def filter_Nil_hd_append add.commute
        split: if_splits)
qed simp

lemma defaultOf_new [simp]: "defaultOf newEventSummary fk = None"
  by (simp add: defaultOf_def newEventSummary_def)

lemma kindsOf_new [simp]: "kindsOf newEventSummary fk = {}"
  by (simp add: kindsOf_def newEventSummary_def)

lemma find_snoc:
  "find P (xs @ [x]) = (case find P xs of None \<Rightarrow> if P x then Some x else None | Some y \<Rightarrow> Some y)"
  by (induction xs) auto

lemma defaultOf_run:
  "defaultOf (eventsState (summarizeAll C newEventSummarizer eds)) fk =
     map_option ed_Default (find (\<lambda>ed. ed_Key ed = fk) eds)"
  by (induction eds rule: rev_induct)
    (auto simp: defaultOf_summarize find_snoc
      split: option.splits)

definition runKinds ::
  "('c, 'v, 'a, 'z) context_api_scheme \<Rightarrow> string \<Rightarrow> ('c, 'v, 'r) EvaluationData list \<Rightarrow> string set" where
  "runKinds C fk eds =
     (\<Union>ed \<in> set (filter (\<lambda>ed. ed_Key ed = fk) eds).
        c_kind C ` set (individualContexts C (ec_context (be_Context (ed_BaseEvent ed)))))"

lemma kindsOf_run:
  "kindsOf (eventsState (summarizeAll C newEventSummarizer eds)) fk = runKinds C fk eds"
  by (induction eds rule: rev_induct)
    (auto simp: kindsOf_summarize runKinds_def)

text \<open>
  C16: After any sequence of evaluations the summary's counter for a flag and a pair of variation
  and version counts exactly the evaluations with that flag key, variation and version (as a
  64-bit integer), carries the value of the first of them, and is absent when there was none.
\<close>

theorem summary_counts:
  "counterOf (eventsState (summarizeAll C newEventSummarizer eds)) fk key =
     (let ms = filter (matches fk key) eds
      in if ms = [] then None
         else Some \<lparr>cv_count = word_of_nat (length ms), cv_flagValue = ed_Value (hd ms)\<rparr>)"
  by (simp add: counterOf_run runCounter_def Let_def)

text \<open>
  The summary of a run of evaluations lists, for each flag, the default value of the first
  evaluation of that flag and exactly the kinds of the individual contexts of all of them; a flag
  that was not evaluated does not occur.
\<close>

theorem summary_flags:
  fixes C :: "('c, 'v, 'a, 'z) context_api_scheme"
    and eds :: "('c, 'v, 'r) EvaluationData list"
  defines "summary \<equiv> eventsState (summarizeAll C newEventSummarizer eds)"
  shows "defaultOf summary fk = map_option ed_Default (find (\<lambda>ed. ed_Key ed = fk) eds) \<and>
    kindsOf summary fk =
      (\<Union>ed \<in> set (filter (\<lambda>ed. ed_Key ed = fk) eds).
         c_kind C ` set (individualContexts C (ec_context (be_Context (ed_BaseEvent ed)))))"
  unfolding summary_def by (simp add: defaultOf_run kindsOf_run runKinds_def)

text \<open>
  C40: If no evaluation has the creation date zero, the start date of the summary of a non-empty
  run is the earliest and its end date the latest of the creation dates.
\<close>

theorem summary_dates:
  fixes C :: "('c, 'v, 'a, 'z) context_api_scheme"
    and eds :: "('c, 'v, 'r) EvaluationData list"
  assumes "eds \<noteq> []" and "\<forall>ed \<in> set eds. be_CreationDate (ed_BaseEvent ed) \<noteq> 0"
  shows "es_startDate (eventsState (summarizeAll C newEventSummarizer eds)) =
      Min ((\<lambda>ed. be_CreationDate (ed_BaseEvent ed)) ` set eds) \<and>
    es_endDate (eventsState (summarizeAll C newEventSummarizer eds)) =
      Max ((\<lambda>ed. be_CreationDate (ed_BaseEvent ed)) ` set eds)"
  using assms
proof (induction eds rule: rev_induct)
  case (snoc ed eds)
  let ?d = "\<lambda>ed. be_CreationDate (ed_BaseEvent (ed :: ('c, 'v, 'r) EvaluationData))"
  show ?case
  proof (cases "eds = []")
    case True
    then show ?thesis
      by (simp add: summarizeAll_def dates_summarize newEventSummary_def)
  next
    case False
    with snoc have IH:
      "es_startDate (eventsState (summarizeAll C newEventSummarizer eds)) = Min (?d ` set eds)"
      "es_endDate (eventsState (summarizeAll C newEventSummarizer eds)) = Max (?d ` set eds)"
      by simp_all
    have "Min (?d ` set eds) \<in> ?d ` set eds" using False by (intro Min_in) auto
    then have nz: "Min (?d ` set eds) \<noteq> 0" using snoc.prems(2) by auto
    have "es_startDate (eventsState (summarizeAll C newEventSummarizer (eds @ [ed]))) =
        min (?d ed) (Min (?d ` set eds))"
      using nz by (auto simp: dates_summarize IH Let_def min_def)
    moreover have "es_endDate (eventsState (summarizeAll C newEventSummarizer (eds @ [ed]))) =
        max (?d ed) (Max (?d ` set eds))"
      by (simp add: dates_summarize IH max.commute)
    ultimately show ?thesis using False by simp
  qed
qed simp

theorem summary_dates_witness:
  "es_startDate (eventsState (summarizeAll sampleC newEventSummarizer
      [sampleEval ''f'' 0 20, sampleEval ''g'' 1 10])) = 10 \<and>
   es_endDate (eventsState (summarizeAll sampleC newEventSummarizer
      [sampleEval ''f'' 0 20, sampleEval ''g'' 1 10])) = 20"
  using summary_dates [of "[sampleEval ''f'' 0 20, sampleEval ''g'' 1 10]" sampleC]
  by (simp add: sampleEval_def)

end
