(* ===== verification/Outbox.thy ===== *)
theory Outbox
  imports Event_Summarizer
begin

text \<open>
  \<open>outbox.go\<close>: the bounded buffer of events waiting to be flushed, with the summarizer. What
  is written through \<open>loggers\<close> is kept as a list of messages. \<open>capacity\<close> is a Go \<open>int\<close> that the
  configuration supplies; \<open>droppedEvents\<close> is a 64-bit counter.
\<close>

section \<open>The code\<close>

record ('c, 'v, 'r) flushPayload =
  fl_diagnosticEvent :: "'v"
  fl_events :: "('c, 'v, 'r) anyEvent list"
  fl_summary :: "'v eventSummary"

record ('c, 'v, 'r) eventsOutbox =
  ob_events :: "('c, 'v, 'r) anyEvent list"
  ob_summarizer :: "'v eventSummarizer"
  ob_capacity :: "int"
  ob_capacityExceeded :: "bool"
  ob_droppedEvents :: "gocount"
  ob_loggers :: "string list"

definition exceededMessage :: "string" where
  "exceededMessage =
     ''Exceeded event queue capacity. Increase capacity to avoid dropping events.''"

text \<open>\<open>make([]anyEventOutput, 0, capacity)\<close> panics for a negative capacity.\<close>

definition newEventsOutbox :: "int \<Rightarrow> ('c, 'v, 'r) eventsOutbox go" where
  "newEventsOutbox capacity =
     (if capacity < 0 then Inl MakeNegativeCap
      else Inr \<lparr>ob_events = [], ob_summarizer = newEventSummarizer, ob_capacity = capacity,
                ob_capacityExceeded = False, ob_droppedEvents = 0, ob_loggers = []\<rparr>)"

definition addEvent ::
  "('c, 'v, 'r) eventsOutbox \<Rightarrow> ('c, 'v, 'r) anyEvent \<Rightarrow> ('c, 'v, 'r) eventsOutbox" where
  "addEvent b event =
     (if int (length (ob_events b)) \<ge> ob_capacity b then
        (let b = (if \<not> ob_capacityExceeded b
                  then b\<lparr>ob_capacityExceeded := True,
                         ob_loggers := ob_loggers b @ [exceededMessage]\<rparr>
                  else b)
         in b\<lparr>ob_droppedEvents := ob_droppedEvents b + 1\<rparr>)
      else b\<lparr>ob_capacityExceeded := False, ob_events := ob_events b @ [event]\<rparr>)"

definition addToSummary ::
  "('c, 'v, 'a, 'z) context_api_scheme \<Rightarrow> ('c, 'v, 'r) eventsOutbox \<Rightarrow>
   ('c, 'v, 'r) EvaluationData \<Rightarrow> ('c, 'v, 'r) eventsOutbox" where
  "addToSummary C b ed = b\<lparr>ob_summarizer := summarizeEvent C (ob_summarizer b) ed\<rparr>"

definition getPayload ::
  "'v value_api \<Rightarrow> ('c, 'v, 'r) eventsOutbox \<Rightarrow> ('c, 'v, 'r) flushPayload" where
  "getPayload V b =
     \<lparr>fl_diagnosticEvent = v_null V,
      fl_events = (if length (ob_events b) > 0 then ob_events b else []),
      fl_summary = snapshot (ob_summarizer b)\<rparr>"

definition outbox_clear :: "('c, 'v, 'r) eventsOutbox \<Rightarrow> ('c, 'v, 'r) eventsOutbox" where
  "outbox_clear b = b\<lparr>ob_events := [], ob_summarizer := summarizer_reset (ob_summarizer b)\<rparr>"

section \<open>The invariant\<close>

definition outbox_inv :: "('c, 'v, 'r) eventsOutbox \<Rightarrow> bool" where
  "outbox_inv b \<longleftrightarrow> int (length (ob_events b)) \<le> ob_capacity b \<and>
     summary_wf (eventsState (ob_summarizer b))"

lemma outbox_inv_new: "newEventsOutbox cap = Inr b \<Longrightarrow> outbox_inv b"
  by (auto simp: newEventsOutbox_def outbox_inv_def split: if_splits)

lemma outbox_inv_addEvent [inv_intros]: "outbox_inv b \<Longrightarrow> outbox_inv (addEvent b e)"
  by (auto simp: outbox_inv_def addEvent_def Let_def)

lemma outbox_inv_addToSummary [inv_intros]: "outbox_inv b \<Longrightarrow> outbox_inv (addToSummary C b ed)"
  by (simp add: outbox_inv_def addToSummary_def summary_wf_summarize)

lemma outbox_inv_clear [inv_intros]: "outbox_inv b \<Longrightarrow> outbox_inv (outbox_clear b)"
  by (simp add: outbox_inv_def outbox_clear_def)

lemma outbox_clear_simps [simp]:
  "ob_events (outbox_clear b) = []"
  "eventsState (ob_summarizer (outbox_clear b)) = newEventSummary"
  "ob_droppedEvents (outbox_clear b) = ob_droppedEvents b"
  "ob_capacity (outbox_clear b) = ob_capacity b"
  by (simp_all add: outbox_clear_def)

lemma addToSummary_simps [simp]:
  "ob_events (addToSummary C b ed) = ob_events b"
  "ob_capacity (addToSummary C b ed) = ob_capacity b"
  "ob_droppedEvents (addToSummary C b ed) = ob_droppedEvents b"
  "ob_summarizer (addToSummary C b ed) = summarizeEvent C (ob_summarizer b) ed"
  by (simp_all add: addToSummary_def)

lemma addEvent_simps [simp]:
  "ob_capacity (addEvent b e) = ob_capacity b"
  "ob_summarizer (addEvent b e) = ob_summarizer b"
  by (simp_all add: addEvent_def Let_def)

lemma getPayload_simps [simp]:
  "fl_events (getPayload V b) = ob_events b"
  "fl_summary (getPayload V b) = eventsState (ob_summarizer b)"
  "fl_diagnosticEvent (getPayload V b) = v_null V"
  by (simp_all add: getPayload_def snapshot_def)

section \<open>The interface the dispatcher relies on: a bounded buffer\<close>

text \<open>
  A buffer accepts an event as long as there is room and otherwise counts it as dropped, keeps
  the order, and is empty after it is drained.
\<close>

locale event_buffer =
  fixes add :: "'b \<Rightarrow> 'e \<Rightarrow> 'b"
    and drain :: "'b \<Rightarrow> 'b"
    and contents :: "'b \<Rightarrow> 'e list"
    and dropped :: "'b \<Rightarrow> gocount"
    and limit :: "'b \<Rightarrow> nat"
    and inv :: "'b \<Rightarrow> bool"
  assumes inv_limit: "inv b \<Longrightarrow> length (contents b) \<le> limit b"
    and add_inv: "inv b \<Longrightarrow> inv (add b e) \<and> limit (add b e) = limit b"
    and add_room: "inv b \<Longrightarrow> length (contents b) < limit b \<Longrightarrow>
          contents (add b e) = contents b @ [e] \<and> dropped (add b e) = dropped b"
    and add_full: "inv b \<Longrightarrow> length (contents b) = limit b \<Longrightarrow>
          contents (add b e) = contents b \<and> dropped (add b e) = dropped b + 1"
    and drain_inv: "inv b \<Longrightarrow> inv (drain b) \<and> limit (drain b) = limit b"
    and drain_empty: "contents (drain b) = []"
    and drain_dropped: "dropped (drain b) = dropped b"
begin

lemma add_all_inv: "inv b \<Longrightarrow> inv (foldl add b es) \<and> limit (foldl add b es) = limit b"
  by (induction es rule: rev_induct) (simp_all add: add_inv)

lemma add_all:
  assumes "inv b"
  shows "contents (foldl add b es) = take (limit b) (contents b @ es) \<and>
    dropped (foldl add b es) =
      dropped b + word_of_nat (length (contents b @ es) - limit b)"
proof (induction es rule: rev_induct)
  case Nil
  then show ?case using inv_limit [OF assms] by simp
next
  case (snoc e es)
  let ?b = "foldl add b es"
  have i: "inv ?b" "limit ?b = limit b" using add_all_inv [OF assms] by simp_all
  show ?case
  proof (cases "length (contents b @ es) < limit b")
    case True
    then have "length (contents ?b) < limit ?b" using snoc i by simp
    then show ?thesis using add_room [OF i(1)] snoc True by simp
  next
    case False
    then have "length (contents ?b) = limit ?b" using snoc i by simp
    moreover have "length (contents b @ es @ [e]) - limit b = Suc (length (contents b @ es) - limit b)"
      using False by simp
    ultimately show ?thesis using add_full [OF i(1)] snoc False by simp
  qed
qed

lemma drain_add_all:
  assumes "inv b"
  shows "contents (foldl add (drain b) es) = take (limit b) es \<and>
    dropped (foldl add (drain b) es) = dropped b + word_of_nat (length es - limit b)"
  using add_all [of "drain b" es] drain_inv [OF assms]
  by (simp add: drain_empty drain_dropped)

end

interpretation outbox: event_buffer addEvent outbox_clear ob_events ob_droppedEvents
  "\<lambda>b. nat (ob_capacity b)" outbox_inv
  by unfold_locales (auto simp: outbox_inv_def addEvent_def Let_def)

text \<open>
  C22: From any outbox whose contents fit its capacity, adding a list of events keeps, in order,
  the longest prefix that fits and counts every other event as dropped; the number of buffered
  events never passes the capacity and the summary is not touched.
\<close>

theorem addEvent_bounded:
  assumes "outbox_inv b"
  shows "ob_events (foldl addEvent b es) = take (nat (ob_capacity b)) (ob_events b @ es) \<and>
    ob_droppedEvents (foldl addEvent b es) =
      ob_droppedEvents b + word_of_nat (length (ob_events b @ es) - nat (ob_capacity b)) \<and>
    outbox_inv (foldl addEvent b es) \<and>
    ob_summarizer (foldl addEvent b es) = ob_summarizer b"
proof -
  have "ob_summarizer (foldl addEvent b es) = ob_summarizer b"
    by (induction es rule: rev_induct) simp_all
  then show ?thesis using outbox.add_all [OF assms] outbox.add_all_inv [OF assms] by blast
qed

definition sampleOutbox :: "int \<Rightarrow> (sctx, sval, string) eventsOutbox" where
  "sampleOutbox cap =
     \<lparr>ob_events = [], ob_summarizer = newEventSummarizer, ob_capacity = cap,
      ob_capacityExceeded = False, ob_droppedEvents = 0, ob_loggers = []\<rparr>"

lemma sampleOutbox_inv [simp]: "0 \<le> cap \<Longrightarrow> outbox_inv (sampleOutbox cap)"
  by (simp add: outbox_inv_def sampleOutbox_def)

theorem addEvent_bounded_witness:
  "ob_events (foldl addEvent (sampleOutbox 2) [RawEvent ''a'', RawEvent ''b'', RawEvent ''c'']) =
     [RawEvent ''a'', RawEvent ''b''] \<and>
   ob_droppedEvents (foldl addEvent (sampleOutbox 2) [RawEvent ''a'', RawEvent ''b'', RawEvent ''c'']) = 1"
  using addEvent_bounded [of "sampleOutbox 2" "[RawEvent ''a'', RawEvent ''b'', RawEvent ''c'']"]
  by (simp add: sampleOutbox_inv) (simp add: sampleOutbox_def)

text \<open>
  The warning is written once for each time the buffer fills up: a run of additions to a
  cleared outbox writes it exactly once if it overflows and its capacity is not zero.
\<close>

lemma addEvent_warns_once:
  assumes "0 < ob_capacity b"
  shows "ob_loggers (foldl addEvent (outbox_clear b) es) =
      ob_loggers b @ (if int (length es) > ob_capacity b then [exceededMessage] else []) \<and>
    (es \<noteq> [] \<longrightarrow>
      ob_capacityExceeded (foldl addEvent (outbox_clear b) es) = (int (length es) > ob_capacity b)) \<and>
    ob_capacity (foldl addEvent (outbox_clear b) es) = ob_capacity b \<and>
    ob_events (foldl addEvent (outbox_clear b) es) = take (nat (ob_capacity b)) es"
proof (induction es rule: rev_induct)
  case Nil
  then show ?case using assms by (simp add: outbox_clear_def)
next
  case (snoc e es)
  show ?case
  proof (cases "int (length es) < ob_capacity b")
    case True
    then show ?thesis using snoc by (simp add: addEvent_def)
  next
    case False
    then have "es \<noteq> []" and "length (take (nat (ob_capacity b)) es) = nat (ob_capacity b)"
      using assms by auto
    then show ?thesis using snoc False assms by (simp add: addEvent_def Let_def)
  qed
qed

end
