(* ===== verification/Lru_Cache.thy ===== *)
theory Lru_Cache
  imports Prelude
begin

text \<open>
  \<open>lru_cache.go\<close>: the cache of context keys that have been seen. The code keeps a map from a
  value to its element of a \<open>container/list\<close> list, most recently used first. The model keeps the
  list as pairs of an element (a number, the identity of the \<open>*list.Element\<close>) and its \<open>Value\<close>,
  and the map from values to elements, so that the correspondence between the two is an
  invariant to prove and not built in. The contract, \<open>lru_spec\<close>, is a plain list of values.
\<close>

section \<open>The code\<close>

record 'k lruCache =
  lc_values :: "('k, nat) gomap"
  lc_list :: "(nat \<times> 'k) list"
  lc_next :: "nat"
  lc_capacity :: "int"

definition newLruCache :: "int \<Rightarrow> 'k lruCache" where
  "newLruCache capacity =
     \<lparr>lc_values = [], lc_list = [], lc_next = 0, lc_capacity = capacity\<rparr>"

definition lru_clear :: "'k lruCache \<Rightarrow> 'k lruCache" where
  "lru_clear c = c\<lparr>lc_values := [], lc_list := []\<rparr>"

text \<open>The operations of \<open>container/list\<close> that the code calls.\<close>

definition list_remove :: "nat \<Rightarrow> (nat \<times> 'k) list \<Rightarrow> (nat \<times> 'k) list" where
  "list_remove e xs = filter (\<lambda>x. fst x \<noteq> e) xs"

definition list_moveToFront :: "nat \<Rightarrow> (nat \<times> 'k) list \<Rightarrow> (nat \<times> 'k) list" where
  "list_moveToFront e xs = filter (\<lambda>x. fst x = e) xs @ list_remove e xs"

definition list_back :: "(nat \<times> 'k) list \<Rightarrow> (nat \<times> 'k) option" where
  "list_back xs = (if xs = [] then None else Some (last xs))"

text \<open>
  The eviction loop. \<open>Back()\<close> of an empty list is \<open>nil\<close>, and \<open>oldest.Value\<close> then panics.
\<close>

lemma list_remove_last_less:
  "list_back xs = Some (e, v) \<Longrightarrow> length (list_remove e xs) < length xs"
proof -
  assume b: "list_back xs = Some (e, v)"
  then have "xs \<noteq> []" and l: "last xs = (e, v)" by (auto simp: list_back_def split: if_splits)
  then have "(e, v) \<in> set xs" using last_in_set by fastforce
  then show ?thesis
    unfolding list_remove_def by (rule length_filter_less) simp
qed

function evict :: "'k lruCache \<Rightarrow> 'k lruCache go" where
  "evict c =
     (if int (length (lc_values c)) \<ge> lc_capacity c then
        (case list_back (lc_list c) of
           None \<Rightarrow> Inl NilDereference
         | Some (e, v) \<Rightarrow>
             evict (c\<lparr>lc_values := AList.delete v (lc_values c),
                      lc_list := list_remove e (lc_list c)\<rparr>))
      else Inr c)"
  by pat_completeness auto
termination
  by (relation "measure (\<lambda>c. length (lc_list c))") (auto simp: list_remove_last_less [OF sym] list_remove_last_less)

declare evict.simps [simp del]

definition lru_add :: "'k lruCache \<Rightarrow> 'k \<Rightarrow> (bool \<times> 'k lruCache) go" where
  "lru_add c v =
     (if lc_capacity c = 0 then Inr (False, c)
      else case map_of (lc_values c) v of
        Some e \<Rightarrow> Inr (True, c\<lparr>lc_list := list_moveToFront e (lc_list c)\<rparr>)
      | None \<Rightarrow>
          go_bind (evict c) (\<lambda>c.
            Inr (False, c\<lparr>lc_list := (lc_next c, v) # lc_list c,
                          lc_values := AList.update v (lc_next c) (lc_values c),
                          lc_next := Suc (lc_next c)\<rparr>)))"

section \<open>The invariant and the contract\<close>

definition lru_inv :: "'k lruCache \<Rightarrow> bool" where
  "lru_inv c \<longleftrightarrow>
     0 \<le> lc_capacity c \<and>
     gomap_wf (lc_values c) \<and>
     set (lc_values c) = (\<lambda>(e, v). (v, e)) ` set (lc_list c) \<and>
     distinct (map fst (lc_list c)) \<and> distinct (map snd (lc_list c)) \<and>
     (\<forall>e \<in> fst ` set (lc_list c). e < lc_next c) \<and>
     int (length (lc_list c)) \<le> lc_capacity c"

definition lru_keys :: "'k lruCache \<Rightarrow> 'k list" where
  "lru_keys c = map snd (lc_list c)"

text \<open>The contract: a list of at most \<open>cap\<close> values, the most recently used first.\<close>

definition lru_spec :: "int \<Rightarrow> 'k list \<Rightarrow> 'k \<Rightarrow> bool \<times> 'k list" where
  "lru_spec cap ks k =
     (if cap = 0 then (False, ks)
      else if k \<in> set ks then (True, k # removeAll k ks)
      else (False, k # take (nat (cap - 1)) ks))"

lemma lru_invI [inv_intros]:
  assumes "0 \<le> lc_capacity c" "gomap_wf (lc_values c)"
    "set (lc_values c) = (\<lambda>(e, v). (v, e)) ` set (lc_list c)"
    "distinct (map fst (lc_list c))" "distinct (map snd (lc_list c))"
    "\<forall>e \<in> fst ` set (lc_list c). e < lc_next c" "int (length (lc_list c)) \<le> lc_capacity c"
  shows "lru_inv c"
  using assms by (simp add: lru_inv_def)

lemma lru_inv_length: "lru_inv c \<Longrightarrow> length (lc_values c) = length (lc_list c)"
proof -
  assume inv: "lru_inv c"
  let ?sw = "\<lambda>(e, v). (v, e)"
  have "card (set (lc_values c)) = card (?sw ` set (lc_list c))"
    using inv by (simp add: lru_inv_def)
  also have "\<dots> = card (set (lc_list c))"
    by (rule card_image) (auto simp: inj_on_def)
  finally have "card (set (lc_values c)) = card (set (lc_list c))" .
  moreover have "distinct (lc_values c)" "distinct (lc_list c)"
    using inv by (auto simp: lru_inv_def gomap_wf_def distinct_map)
  ultimately show ?thesis by (metis distinct_card)
qed

lemma lru_inv_lookup:
  assumes "lru_inv c"
  shows "map_of (lc_values c) k = Some e \<longleftrightarrow> (e, k) \<in> set (lc_list c)"
  using assms by (auto simp: lru_inv_def map_of_eq_Some_mem)

lemma lru_inv_lookup_None:
  assumes "lru_inv c"
  shows "map_of (lc_values c) k = None \<longleftrightarrow> k \<notin> set (lru_keys c)"
proof -
  have "map_of (lc_values c) k = None \<longleftrightarrow> (\<forall>e. map_of (lc_values c) k \<noteq> Some e)" by auto
  then show ?thesis by (auto simp: lru_inv_lookup [OF assms] lru_keys_def image_iff)
qed

lemma lru_inv_new: "0 \<le> cap \<Longrightarrow> lru_inv (newLruCache cap)"
  by (simp add: lru_inv_def newLruCache_def)

lemma lru_inv_clear: "lru_inv c \<Longrightarrow> lru_inv (lru_clear c)"
  by (simp add: lru_inv_def lru_clear_def)

lemma lru_keys_clear [simp]: "lru_keys (lru_clear c) = []"
  by (simp add: lru_keys_def lru_clear_def)

lemma lru_keys_new [simp]: "lru_keys (newLruCache cap) = []"
  by (simp add: lru_keys_def newLruCache_def)

section \<open>The code meets the contract\<close>

lemma filter_fst_unique:
  "distinct (map fst xs) \<Longrightarrow> (e, k) \<in> set xs \<Longrightarrow> filter (\<lambda>x. fst x = e) xs = [(e, k)]"
proof (induction xs)
  case (Cons x xs)
  show ?case
  proof (cases "fst x = e")
    case True
    with Cons.prems(1) have "e \<notin> fst ` set xs" by auto
    then have "(e, k) \<notin> set xs" by force
    with Cons.prems(2) have "x = (e, k)" by auto
    moreover from \<open>e \<notin> fst ` set xs\<close> have "filter (\<lambda>x. fst x = e) xs = []"
      by (force simp: filter_empty_conv)
    ultimately show ?thesis by simp
  next
    case False
    with Cons show ?thesis by auto
  qed
qed simp

lemma list_moveToFront_eq:
  "distinct (map fst xs) \<Longrightarrow> (e, k) \<in> set xs \<Longrightarrow>
     list_moveToFront e xs = (e, k) # list_remove e xs"
  by (simp add: list_moveToFront_def filter_fst_unique)

lemma map_snd_list_remove:
  "distinct (map fst xs) \<Longrightarrow> distinct (map snd xs) \<Longrightarrow> (e, k) \<in> set xs \<Longrightarrow>
     map snd (list_remove e xs) = removeAll k (map snd xs)"
proof -
  assume d: "distinct (map fst xs)" "distinct (map snd xs)" and m: "(e, k) \<in> set xs"
  have "fst x \<noteq> e \<longleftrightarrow> snd x \<noteq> k" if "x \<in> set xs" for x
    using d m that by (metis distinct_map fst_conv inj_onD snd_conv)
  then show ?thesis
    unfolding list_remove_def removeAll_filter_not_eq filter_map
    by (intro arg_cong [where f = "map snd"] filter_cong) auto
qed

lemma list_remove_last:
  "distinct (map fst xs) \<Longrightarrow> list_back xs = Some (e, k) \<Longrightarrow> list_remove e xs = butlast xs"
proof -
  assume d: "distinct (map fst xs)" and b: "list_back xs = Some (e, k)"
  then obtain ys where xs: "xs = ys @ [(e, k)]"
    by (cases xs rule: rev_cases) (auto simp: list_back_def)
  with d show ?thesis by (auto simp: list_remove_def filter_id_conv image_iff)
qed

lemma evict_below: "int (length (lc_values c)) < lc_capacity c \<Longrightarrow> evict c = Inr c"
  by (simp add: evict.simps [of c])

lemma evict_full:
  assumes inv: "lru_inv c" and pos: "0 < lc_capacity c"
    and full: "int (length (lc_values c)) \<ge> lc_capacity c"
  shows "\<exists>e k. last (lc_list c) = (e, k) \<and> lc_list c \<noteq> [] \<and>
     evict c = Inr (c\<lparr>lc_values := AList.delete k (lc_values c), lc_list := butlast (lc_list c)\<rparr>)"
proof -
  have len: "length (lc_values c) = length (lc_list c)" using inv by (rule lru_inv_length)
  with pos full have ne: "lc_list c \<noteq> []" by auto
  obtain e k where l: "last (lc_list c) = (e, k)" by fastforce
  have b: "list_back (lc_list c) = Some (e, k)" using ne l by (simp add: list_back_def)
  have rem: "list_remove e (lc_list c) = butlast (lc_list c)"
    using inv b by (intro list_remove_last) (auto simp: lru_inv_def)
  have "(e, k) \<in> set (lc_list c)" using ne l last_in_set by fastforce
  then have mem: "(k, e) \<in> set (lc_values c)" using inv by (auto simp: lru_inv_def)
  then have kd: "k \<in> fst ` set (lc_values c)" by force
  have lend: "length (AList.delete k (lc_values c)) < length (lc_values c)"
    unfolding AList.delete_eq using mem by (intro length_filter_less) auto
  let ?c = "c\<lparr>lc_values := AList.delete k (lc_values c), lc_list := butlast (lc_list c)\<rparr>"
  have "int (length (lc_list c)) \<le> lc_capacity c" using inv by (simp add: lru_inv_def)
  then have "evict ?c = Inr ?c" using lend len by (intro evict_below) simp
  then have "evict c = Inr ?c" using full b rem by (simp add: evict.simps [of c])
  with l ne show ?thesis by blast
qed

lemma lru_inv_evicted:
  assumes inv: "lru_inv c" and l: "last (lc_list c) = (e, k)" "lc_list c \<noteq> []"
  shows "lru_inv (c\<lparr>lc_values := AList.delete k (lc_values c), lc_list := butlast (lc_list c)\<rparr>)"
proof -
  obtain ys where ys: "lc_list c = ys @ [(e, k)]"
    using l by (metis append_butlast_last_id)
  have "set (AList.delete k (lc_values c)) = (\<lambda>(e, v). (v, e)) ` set ys"
    using inv by (auto simp: lru_inv_def ys AList.delete_eq image_iff)
  then show ?thesis
    using inv by (auto simp: lru_inv_def ys)
qed

lemma lru_add_known:
  assumes inv: "lru_inv c" and cap: "lc_capacity c \<noteq> 0" and k: "k \<in> set (lru_keys c)"
  shows "\<exists>c'. lru_add c k = Inr (True, c') \<and> lru_inv c' \<and> lc_capacity c' = lc_capacity c \<and>
    lru_keys c' = k # removeAll k (lru_keys c)"
proof -
  obtain e where e: "(e, k) \<in> set (lc_list c)" using k by (auto simp: lru_keys_def)
  have d: "distinct (map fst (lc_list c))" "distinct (map snd (lc_list c))"
    using inv by (auto simp: lru_inv_def)
  let ?l = "list_moveToFront e (lc_list c)"
  have l: "?l = (e, k) # list_remove e (lc_list c)" using d(1) e by (rule list_moveToFront_eq)
  have s: "set ?l = set (lc_list c)"
    by (auto simp: list_moveToFront_def list_remove_def)
  have ks: "map snd ?l = k # removeAll k (lru_keys c)"
    using map_snd_list_remove [OF d e] by (simp add: l lru_keys_def)
  have dl: "distinct (map fst ?l)"
    using d(1) by (auto simp: l list_remove_def distinct_map inj_on_def)
  have ds: "distinct (map snd ?l)"
    unfolding ks using d(2) by (simp add: lru_keys_def distinct_removeAll)
  have "length ?l = length (lc_list c)"
    using dl d(1) s by (metis distinct_card distinct_map)
  then have "lru_inv (c\<lparr>lc_list := ?l\<rparr>)"
    using inv dl ds s by (simp add: lru_inv_def)
  moreover have "lru_add c k = Inr (True, c\<lparr>lc_list := ?l\<rparr>)"
    using e cap lru_inv_lookup [OF inv, of k e] by (simp add: lru_add_def)
  ultimately show ?thesis using ks by (simp add: lru_keys_def)
qed

lemma lru_push_inv:
  assumes inv: "lru_inv c" and k: "k \<notin> set (lru_keys c)"
    and room: "int (length (lc_list c)) < lc_capacity c"
  shows "lru_inv (c\<lparr>lc_list := (lc_next c, k) # lc_list c,
            lc_values := AList.update k (lc_next c) (lc_values c), lc_next := Suc (lc_next c)\<rparr>)"
proof -
  have nk: "k \<notin> fst ` set (lc_values c)"
    using lru_inv_lookup_None [OF inv, of k] k by (simp add: map_of_eq_None_iff)
  have "set (AList.update k (lc_next c) (lc_values c)) =
        insert (k, lc_next c) (set (lc_values c))"
    using nk by (simp add: update_new)
  then show ?thesis
    using inv k room by (force simp: lru_inv_def lru_keys_def)
qed

lemma lru_add_new:
  assumes inv: "lru_inv c" and cap: "lc_capacity c \<noteq> 0" and k: "k \<notin> set (lru_keys c)"
  shows "\<exists>c'. lru_add c k = Inr (False, c') \<and> lru_inv c' \<and> lc_capacity c' = lc_capacity c \<and>
    lru_keys c' = k # take (nat (lc_capacity c - 1)) (lru_keys c)"
proof -
  have len: "length (lc_values c) = length (lc_list c)" using inv by (rule lru_inv_length)
  have bnd: "0 < lc_capacity c" "int (length (lc_list c)) \<le> lc_capacity c"
    using inv cap by (auto simp: lru_inv_def)
  have "\<exists>d. evict c = Inr d \<and> lru_inv d \<and> lc_capacity d = lc_capacity c \<and>
    int (length (lc_list d)) < lc_capacity d \<and> lru_keys d = take (nat (lc_capacity c - 1)) (lru_keys c)"
  proof (cases "int (length (lc_values c)) < lc_capacity c")
    case True
    then show ?thesis using inv len by (intro exI [of _ c]) (simp add: evict_below lru_keys_def)
  next
    case False
    then have full: "int (length (lc_values c)) \<ge> lc_capacity c" by simp
    obtain e v where ev: "last (lc_list c) = (e, v)" "lc_list c \<noteq> []"
      "evict c = Inr (c\<lparr>lc_values := AList.delete v (lc_values c), lc_list := butlast (lc_list c)\<rparr>)"
      using evict_full [OF inv bnd(1) full] by blast
    have n: "nat (lc_capacity c - 1) = length (lc_list c) - 1" using full bnd len by simp
    show ?thesis
      using lru_inv_evicted [OF inv ev(1,2)] ev(2,3) bnd
      by (simp add: lru_keys_def n butlast_conv_take take_map)
  qed
  then obtain d where d: "evict c = Inr d" "lru_inv d" "lc_capacity d = lc_capacity c"
    "int (length (lc_list d)) < lc_capacity d" "lru_keys d = take (nat (lc_capacity c - 1)) (lru_keys c)"
    by blast
  have kd: "k \<notin> set (lru_keys d)" using k by (auto simp: d(5) dest: in_set_takeD)
  have "map_of (lc_values c) k = None" using lru_inv_lookup_None [OF inv] k by simp
  then show ?thesis
    using lru_push_inv [OF d(2) kd d(4)] cap d
    by (simp add: lru_add_def lru_keys_def)
qed

text \<open>
  \<open>add\<close> refines the contract: from a cache in its invariant it never panics, answers as
  \<open>lru_spec\<close> does and leaves the values \<open>lru_spec\<close> leaves.
\<close>

lemma lru_add_refines:
  assumes inv: "lru_inv c"
  shows "\<exists>c'. lru_add c k = Inr (fst (lru_spec (lc_capacity c) (lru_keys c) k), c') \<and>
    lru_inv c' \<and> lc_capacity c' = lc_capacity c \<and>
    lru_keys c' = snd (lru_spec (lc_capacity c) (lru_keys c) k)"
proof (cases "lc_capacity c = 0")
  case True
  then show ?thesis using inv by (simp add: lru_add_def lru_spec_def)
next
  case False
  then show ?thesis
    using lru_add_known [OF inv False, of k] lru_add_new [OF inv False, of k]
    by (simp add: lru_spec_def)
qed

lemma lru_add_cases:
  assumes "lru_inv c" and "lru_add c k = Inr (b, c')"
  shows "lru_inv c'" and "lc_capacity c' = lc_capacity c"
    and "(b, lru_keys c') = lru_spec (lc_capacity c) (lru_keys c) k"
  using lru_add_refines [OF assms(1), of k] assms(2) by auto

lemma lru_keys_cap0: "lru_inv c \<Longrightarrow> lc_capacity c = 0 \<Longrightarrow> lru_keys c = []"
  by (simp add: lru_inv_def lru_keys_def)

text \<open>A negative capacity: the first \<open>add\<close> empties the list and dereferences a nil element.\<close>

lemma lru_add_negative: "cap < 0 \<Longrightarrow> lru_add (newLruCache cap) k = Inl NilDereference"
  by (simp add: lru_add_def newLruCache_def evict.simps list_back_def)

section \<open>Runs\<close>

fun lru_adds :: "'k lruCache \<Rightarrow> 'k list \<Rightarrow> (bool list \<times> 'k lruCache) go" where
  "lru_adds c [] = Inr ([], c)"
| "lru_adds c (k # ks) =
     go_bind (lru_add c k) (\<lambda>(b, c). go_bind (lru_adds c ks) (\<lambda>(bs, c). Inr (b # bs, c)))"

fun lru_spec_run :: "int \<Rightarrow> 'k list \<Rightarrow> 'k list \<Rightarrow> bool list \<times> 'k list" where
  "lru_spec_run cap known [] = ([], known)"
| "lru_spec_run cap known (k # ks) =
     (let (b, known) = lru_spec cap known k; (bs, known) = lru_spec_run cap known ks
      in (b # bs, known))"

lemma lru_adds_refine:
  "lru_inv c \<Longrightarrow> \<exists>c'. lru_adds c ks = Inr (fst (lru_spec_run (lc_capacity c) (lru_keys c) ks), c') \<and>
     lru_inv c' \<and> lru_keys c' = snd (lru_spec_run (lc_capacity c) (lru_keys c) ks)"
proof (induction ks arbitrary: c)
  case (Cons k ks)
  from lru_add_refines [OF Cons.prems, of k] obtain c1 where
    a: "lru_add c k = Inr (fst (lru_spec (lc_capacity c) (lru_keys c) k), c1)"
    "lru_inv c1" "lc_capacity c1 = lc_capacity c"
    "lru_keys c1 = snd (lru_spec (lc_capacity c) (lru_keys c) k)"
    by blast
  from Cons.IH [OF a(2)] a show ?case by (auto simp: Let_def split: prod.splits)
qed simp

text \<open>While the keys in play fit the capacity, the cache is an exact set of the keys seen.\<close>

lemma lru_spec_room:
  assumes "distinct known" and "int (card (insert k (set known))) \<le> cap"
  shows "fst (lru_spec cap known k) = (k \<in> set known)"
    and "set (snd (lru_spec cap known k)) = insert k (set known)"
    and "distinct (snd (lru_spec cap known k))"
proof -
  have c: "cap \<noteq> 0" using assms(2) by (metis card_eq_0_iff finite_insert finite_set insert_not_empty
      int_ops(1) le_zero_eq of_nat_le_iff)
  have t: "take (nat (cap - 1)) known = known" if "k \<notin> set known"
    using that assms by (simp add: distinct_card)
  show "fst (lru_spec cap known k) = (k \<in> set known)" using c by (simp add: lru_spec_def)
  show "set (snd (lru_spec cap known k)) = insert k (set known)"
    using c t by (auto simp: lru_spec_def)
  show "distinct (snd (lru_spec cap known k))"
    using c t assms(1) by (auto simp: lru_spec_def distinct_removeAll)
qed

lemma lru_add_room:
  assumes "lru_inv c" and "int (card (insert k (set (lru_keys c)))) \<le> lc_capacity c"
  shows "\<exists>c'. lru_add c k = Inr (k \<in> set (lru_keys c), c') \<and> lru_inv c' \<and>
    lc_capacity c' = lc_capacity c \<and> set (lru_keys c') = insert k (set (lru_keys c))"
proof -
  have d: "distinct (lru_keys c)" using assms(1) by (simp add: lru_inv_def lru_keys_def)
  show ?thesis using lru_add_refines [OF assms(1), of k] lru_spec_room [OF d assms(2)] by auto
qed

text \<open>
  C21: The cache implements its contract over every run: from any state that satisfies the
  invariant, adding a list of keys never panics, answers each key as the abstract list of most
  recently used keys does (with eviction of the least recent at capacity), and ends in a state of
  the invariant whose keys, in order, are those of the abstract list.
\<close>

theorem lru_adds_refines:
  assumes "lru_inv c"
  shows "\<exists>c'. lru_adds c ks = Inr (fst (lru_spec_run (lc_capacity c) (lru_keys c) ks), c') \<and>
     lru_inv c' \<and> lru_keys c' = snd (lru_spec_run (lc_capacity c) (lru_keys c) ks)"
  by (rule lru_adds_refine [OF assms])

theorem lru_adds_refines_witness:
  "\<exists>c'. lru_adds (newLruCache 2) [1, 2, 1, 3, 2 :: nat] = Inr ([False, False, True, False, False], c') \<and>
     lru_keys c' = [2, 3]"
proof -
  have e: "lru_spec_run (lc_capacity (newLruCache 2)) (lru_keys (newLruCache 2)) [1, 2, 1, 3, 2 :: nat] =
      ([False, False, True, False, False], [2, 3])"
    by code_simp
  have "(0 :: int) \<le> 2" by simp
  from lru_adds_refines [OF lru_inv_new [OF this], of "[1, 2, 1, 3, 2 :: nat]"]
  show ?thesis unfolding e fst_conv snd_conv by blast
qed

section \<open>The interface the dispatcher relies on\<close>

text \<open>
  What the event dispatcher uses of the cache: \<open>add\<close> tells whether the key is known, a key that
  was just added is known (if the cache stores anything), nothing else becomes known, and
  \<open>clear\<close> forgets everything.
\<close>

locale key_cache =
  fixes add :: "'s \<Rightarrow> 'k \<Rightarrow> (bool \<times> 's) go"
    and clear :: "'s \<Rightarrow> 's"
    and known :: "'s \<Rightarrow> 'k set"
    and inv :: "'s \<Rightarrow> bool"
    and stores :: "'s \<Rightarrow> bool"
  assumes add_returns: "inv s \<Longrightarrow> \<exists>b s'. add s k = Inr (b, s')"
    and add_inv: "inv s \<Longrightarrow> add s k = Inr (b, s') \<Longrightarrow> inv s' \<and> (stores s' \<longleftrightarrow> stores s)"
    and add_result: "inv s \<Longrightarrow> add s k = Inr (b, s') \<Longrightarrow> b \<longleftrightarrow> k \<in> known s"
    and add_known: "inv s \<Longrightarrow> add s k = Inr (b, s') \<Longrightarrow> known s' \<subseteq> insert k (known s)"
    and add_stores: "inv s \<Longrightarrow> add s k = Inr (b, s') \<Longrightarrow> stores s \<Longrightarrow> k \<in> known s'"
    and clear_inv: "inv s \<Longrightarrow> inv (clear s) \<and> (stores (clear s) \<longleftrightarrow> stores s)"
    and clear_known: "inv s \<Longrightarrow> known (clear s) = {}"
begin

fun adds :: "'s \<Rightarrow> 'k list \<Rightarrow> (bool list \<times> 's) go" where
  "adds s [] = Inr ([], s)"
| "adds s (k # ks) =
     go_bind (add s k) (\<lambda>(b, s). go_bind (adds s ks) (\<lambda>(bs, s). Inr (b # bs, s)))"

lemma adds_returns: "inv s \<Longrightarrow> \<exists>bs s'. adds s ks = Inr (bs, s') \<and> length bs = length ks"
proof (induction ks arbitrary: s)
  case (Cons k ks)
  obtain b s1 where a: "add s k = Inr (b, s1)" using add_returns [OF Cons.prems] by blast
  have "inv s1" using add_inv [OF Cons.prems a] by simp
  then show ?case using a Cons.IH [of s1] by auto
qed simp

text \<open>A key answered as already known was known at the start or was added before.\<close>

lemma adds_seen:
  assumes "inv s" and "adds s ks = Inr (bs, s')" and "i < length ks" and "bs ! i"
  shows "ks ! i \<in> known s \<union> set (take i ks)"
  using assms
proof (induction ks arbitrary: s bs i)
  case (Cons k ks)
  obtain b s1 cs where a: "add s k = Inr (b, s1)" and r: "adds s1 ks = Inr (cs, s')" "bs = b # cs"
    using Cons.prems(2) by (auto simp: go_bind_eq_Inr)
  show ?case
  proof (cases i)
    case 0
    then show ?thesis using add_result [OF Cons.prems(1) a] Cons.prems(4) r(2) by simp
  next
    case (Suc j)
    have "inv s1" using add_inv [OF Cons.prems(1) a] by simp
    then have "ks ! j \<in> known s1 \<union> set (take j ks)"
      using Cons.IH [of s1 cs j] r Cons.prems(3,4) Suc by simp
    then show ?thesis using add_known [OF Cons.prems(1) a] Suc by auto
  qed
qed simp

text \<open>So the first occurrence of a key after a reset is always answered as new.\<close>

lemma adds_first_new:
  assumes "inv s" and "adds (clear s) ks = Inr (bs, s')" and "i < length ks"
    and "ks ! i \<notin> set (take i ks)"
  shows "\<not> bs ! i"
  using adds_seen [OF _ assms(2,3)] clear_inv [OF assms(1)] clear_known [OF assms(1)] assms(4)
  by auto

end

interpretation lru: key_cache lru_add lru_clear "\<lambda>c. set (lru_keys c)" lru_inv "\<lambda>c. lc_capacity c \<noteq> 0"
proof unfold_locales
  fix s :: "'k lruCache" and k b s'
  assume i: "lru_inv s"
  show "\<exists>b s'. lru_add s k = Inr (b, s')" using lru_add_refines [OF i] by blast
  show "lru_inv (lru_clear s) \<and> (lc_capacity (lru_clear s) \<noteq> 0) = (lc_capacity s \<noteq> 0)"
    using lru_inv_clear [OF i] by (simp add: lru_clear_def)
  show "set (lru_keys (lru_clear s)) = {}" by simp
  assume a: "lru_add s k = Inr (b, s')"
  note r = lru_add_cases [OF i a]
  show "lru_inv s' \<and> (lc_capacity s' \<noteq> 0) = (lc_capacity s \<noteq> 0)" using r by simp
  show "b \<longleftrightarrow> k \<in> set (lru_keys s)"
    using r(3) lru_keys_cap0 [OF i] by (auto simp: lru_spec_def split: if_splits)
  show "set (lru_keys s') \<subseteq> insert k (set (lru_keys s))"
    using r(3) by (auto simp: lru_spec_def split: if_splits dest: in_set_takeD)
  show "lc_capacity s \<noteq> 0 \<Longrightarrow> k \<in> set (lru_keys s')"
    using r(3) by (auto simp: lru_spec_def split: if_splits)
qed

end
