(* ===== verification/Json_Writer.thy ===== *)
theory Json_Writer
  imports Sdk_Common
begin

text \<open>
  The code writes its JSON through \<open>jwriter\<close>, a package that is not part of the repository. The
  model of a function that writes is the sequence of calls it makes on the writer, one
  constructor per call, so nothing is assumed of the bytes the writer produces. This theory also
  has the documents such a sequence denotes: \<open>doc\<close> is a JSON value with the imported packages'
  own values as leaves, \<open>calls\<close> the sequence that writes it, and \<open>readDoc\<close> a reader that
  recovers the document from the calls, which shows that a sequence denotes one document only.
\<close>

datatype ('v, 'r) wcall =
    WRaw bytes
  | WObject
  | WObjectEnd
  | WArray
  | WArrayEnd
  | WName string
  | WString string
  | WInt int
  | WFloat64 float64
  | WBool bool
  | WValue 'v
  | WReason 'r
  | WError string

datatype ('v, 'r) doc =
    DRaw bytes
  | DString string
  | DInt int
  | DFloat64 float64
  | DBool bool
  | DValue 'v
  | DReason 'r
  | DArray "('v, 'r) doc list"
  | DObject "(string \<times> ('v, 'r) doc) list"

fun calls :: "('v, 'r) doc \<Rightarrow> ('v, 'r) wcall list" where
  "calls (DRaw b) = [WRaw b]"
| "calls (DString s) = [WString s]"
| "calls (DInt i) = [WInt i]"
| "calls (DFloat64 f) = [WFloat64 f]"
| "calls (DBool b) = [WBool b]"
| "calls (DValue v) = [WValue v]"
| "calls (DReason r) = [WReason r]"
| "calls (DArray ds) = WArray # concat (map calls ds) @ [WArrayEnd]"
| "calls (DObject ms) = WObject # concat (map (\<lambda>(k, d). WName k # calls d) ms) @ [WObjectEnd]"

definition memberCalls :: "(string \<times> ('v, 'r) doc) list \<Rightarrow> ('v, 'r) wcall list" where
  "memberCalls ms = concat (map (\<lambda>(k, d). WName k # calls d) ms)"

lemma memberCalls_simps [simp]:
  "memberCalls [] = []"
  "memberCalls ((k, d) # ms) = WName k # calls d @ memberCalls ms"
  "memberCalls (ms @ ns) = memberCalls ms @ memberCalls ns"
  by (simp_all add: memberCalls_def)

lemma calls_DObject: "calls (DObject ms) = WObject # memberCalls ms @ [WObjectEnd]"
  by (simp add: memberCalls_def)

declare calls.simps(9) [simp del]

section \<open>Reading a document back\<close>

datatype ('v, 'r) frame =
    FTop "('v, 'r) doc list"
  | FArray "('v, 'r) doc list"
  | FObject "(string \<times> ('v, 'r) doc) list" "string option"

fun putDoc :: "('v, 'r) doc \<Rightarrow> ('v, 'r) frame list \<Rightarrow> ('v, 'r) frame list option" where
  "putDoc d (FTop ds # st) = Some (FTop (ds @ [d]) # st)"
| "putDoc d (FArray ds # st) = Some (FArray (ds @ [d]) # st)"
| "putDoc d (FObject ms (Some k) # st) = Some (FObject (ms @ [(k, d)]) None # st)"
| "putDoc d st = None"

fun readCall :: "('v, 'r) wcall \<Rightarrow> ('v, 'r) frame list \<Rightarrow> ('v, 'r) frame list option" where
  "readCall (WRaw b) st = putDoc (DRaw b) st"
| "readCall (WString s) st = putDoc (DString s) st"
| "readCall (WInt i) st = putDoc (DInt i) st"
| "readCall (WFloat64 f) st = putDoc (DFloat64 f) st"
| "readCall (WBool b) st = putDoc (DBool b) st"
| "readCall (WValue v) st = putDoc (DValue v) st"
| "readCall (WReason r) st = putDoc (DReason r) st"
| "readCall WObject st = Some (FObject [] None # st)"
| "readCall WArray st = Some (FArray [] # st)"
| "readCall (WName k) (FObject ms None # st) = Some (FObject ms (Some k) # st)"
| "readCall WObjectEnd (FObject ms None # st) = putDoc (DObject ms) st"
| "readCall WArrayEnd (FArray ds # st) = putDoc (DArray ds) st"
| "readCall _ st = None"

fun readCalls :: "('v, 'r) wcall list \<Rightarrow> ('v, 'r) frame list \<Rightarrow> ('v, 'r) frame list option" where
  "readCalls [] st = Some st"
| "readCalls (c # cs) st = Option.bind (readCall c st) (readCalls cs)"

definition readDoc :: "('v, 'r) wcall list \<Rightarrow> ('v, 'r) doc option" where
  "readDoc cs = (case readCalls cs [FTop []] of Some [FTop [d]] \<Rightarrow> Some d | _ \<Rightarrow> None)"

lemma readCalls_append: "readCalls (cs @ ds) st = Option.bind (readCalls cs st) (readCalls ds)"
  by (induction cs arbitrary: st) (auto split: bind_split)

lemma readCalls_docs:
  assumes "\<And>d st. d \<in> set ds \<Longrightarrow> readCalls (calls d) st = putDoc d st"
  shows "readCalls (concat (map calls ds)) (FArray xs # st) = Some (FArray (xs @ ds) # st)"
  using assms
proof (induction ds arbitrary: xs)
  case (Cons d ds)
  have "readCalls (concat (map calls ds)) (FArray ((xs @ [d])) # st) = Some (FArray ((xs @ [d]) @ ds) # st)"
    by (rule Cons.IH) (simp add: Cons.prems)
  then show ?case using Cons.prems by (simp add: readCalls_append)
qed simp

lemma readCalls_members:
  assumes "\<And>k d st. (k, d) \<in> set ms \<Longrightarrow> readCalls (calls d) st = putDoc d st"
  shows "readCalls (memberCalls ms) (FObject xs None # st) = Some (FObject (xs @ ms) None # st)"
  using assms
proof (induction ms arbitrary: xs)
  case (Cons m ms)
  obtain k d where m: "m = (k, d)" by fastforce
  have "readCalls (memberCalls ms) (FObject (xs @ [m]) None # st) =
      Some (FObject ((xs @ [m]) @ ms) None # st)"
    by (rule Cons.IH) (use Cons.prems in auto)
  moreover have "readCalls (calls d) st = putDoc d st" for st
    by (rule Cons.prems [of k d]) (simp add: m)
  ultimately show ?case by (simp add: readCalls_append m)
qed simp

lemma readCalls_calls: "readCalls (calls d) st = putDoc d st"
proof (induction d arbitrary: st)
  case (DArray ds)
  have "readCalls (concat (map calls ds)) (FArray [] # st) = Some (FArray ([] @ ds) # st)"
    by (rule readCalls_docs) (rule DArray)
  then show ?case by (simp add: readCalls_append split: bind_split)
next
  case (DObject ms)
  have "readCalls (memberCalls ms) (FObject [] None # st) = Some (FObject ([] @ ms) None # st)"
    by (rule readCalls_members) (rule DObject, auto)
  then show ?case by (simp add: calls_DObject readCalls_append split: bind_split)
qed (auto split: bind_split)

text \<open>The calls that write a document determine it.\<close>

lemma readDoc_calls [simp]: "readDoc (calls d) = Some d"
  by (simp add: readDoc_def readCalls_calls)

lemma calls_inject: "calls d = calls e \<longleftrightarrow> d = e"
  by (metis option.inject readDoc_calls)

section \<open>What a document shows\<close>

text \<open>
  A value or a document has a property at a path of names. A leaf of the imported value type
  shows everything that is in it.
\<close>

inductive value_has :: "('v, 'z) value_api_scheme \<Rightarrow> 'v \<Rightarrow> string list \<Rightarrow> bool" for V where
  value_has_here: "value_has V v []"
| value_has_below: "v_type V v = ObjectType \<Longrightarrow> k \<in> set (v_keys V v) \<Longrightarrow>
    value_has V (v_get V v k) p \<Longrightarrow> value_has V v (k # p)"

inductive_simps value_has_Nil [simp]: "value_has V v []"
inductive_simps value_has_Cons: "value_has V v (k # p)"

inductive doc_has :: "('v, 'z) value_api_scheme \<Rightarrow> ('v, 'r) doc \<Rightarrow> string list \<Rightarrow> bool" for V where
  doc_has_here: "doc_has V d []"
| doc_has_value: "value_has V v p \<Longrightarrow> doc_has V (DValue v) p"
| doc_has_member: "(k, d) \<in> set ms \<Longrightarrow> doc_has V d p \<Longrightarrow> doc_has V (DObject ms) (k # p)"

inductive_simps doc_has_Nil [simp]: "doc_has V d []"
inductive_simps doc_has_DValue_iff: "doc_has V (DValue v) p"
inductive_simps doc_has_DObject_Cons [simp]: "doc_has V (DObject ms) (k # p)"

lemma doc_has_DValue [simp]: "doc_has V (DValue v) p \<longleftrightarrow> value_has V v p"
  by (auto simp: doc_has_DValue_iff)

section \<open>Writing a sequence\<close>

text \<open>A loop that calls a writing function for each element of a slice.\<close>

fun writeAll :: "('x \<Rightarrow> ('v, 'r) wcall list option) \<Rightarrow> 'x list \<Rightarrow> ('v, 'r) wcall list option" where
  "writeAll w [] = Some []"
| "writeAll w (x # xs) =
     (case w x of
        None \<Rightarrow> None
      | Some cs \<Rightarrow> (case writeAll w xs of None \<Rightarrow> None | Some cs' \<Rightarrow> Some (cs @ cs')))"

lemma writeAll_total:
  "(\<And>x. x \<in> set xs \<Longrightarrow> \<exists>cs. w x = Some cs) \<Longrightarrow> \<exists>cs. writeAll w xs = Some cs"
  by (induction xs) (auto, metis option.simps(5))

lemma writeAll_members:
  assumes "writeAll (\<lambda>x. map_option (\<lambda>cs. WName (key x) # cs) (w x)) xs = Some cs"
    and "\<And>x cs. x \<in> set xs \<Longrightarrow> w x = Some cs \<Longrightarrow> \<exists>d. cs = calls d \<and> P x d"
  shows "\<exists>ds. length ds = length xs \<and> cs = memberCalls (zip (map key xs) ds) \<and> list_all2 P xs ds"
  using assms
proof (induction xs arbitrary: cs)
  case (Cons x xs)
  from Cons.prems(1) obtain c1 c2 where
    w: "w x = Some c1" "writeAll (\<lambda>x. map_option (\<lambda>cs. WName (key x) # cs) (w x)) xs = Some c2"
      "cs = WName (key x) # c1 @ c2"
    by (auto split: option.splits)
  obtain d where d: "c1 = calls d" "P x d" using Cons.prems(2) [of x c1] w(1) by auto
  obtain ds where "length ds = length xs" "c2 = memberCalls (zip (map key xs) ds)" "list_all2 P xs ds"
    using Cons.IH [OF w(2)] Cons.prems(2) by auto
  with d w(3) show ?case by (intro exI [of _ "d # ds"]) simp
qed simp

text \<open>
  The interface of a function that writes one value: on the inputs that are \<open>ok\<close> its calls are
  those of one document.
\<close>

locale doc_writer =
  fixes wr :: "'x \<Rightarrow> ('v, 'r) wcall list option"
    and ok :: "'x \<Rightarrow> bool"
  assumes writes_doc: "ok x \<Longrightarrow> wr x = Some cs \<Longrightarrow> \<exists>d. cs = calls d"
begin

lemma readDoc_write: "ok x \<Longrightarrow> wr x = Some cs \<Longrightarrow> \<exists>d. readDoc cs = Some d \<and> cs = calls d"
  using writes_doc by fastforce

lemma writeAll_docs:
  "list_all ok xs \<Longrightarrow> writeAll wr xs = Some cs \<Longrightarrow>
     \<exists>ds. length ds = length xs \<and> cs = concat (map calls ds) \<and>
          list_all2 (\<lambda>x d. wr x = Some (calls d)) xs ds"
proof (induction xs arbitrary: cs)
  case (Cons x xs)
  then obtain c1 c2 where w: "wr x = Some c1" "writeAll wr xs = Some c2" "cs = c1 @ c2"
    by (auto split: option.splits)
  obtain d where d: "c1 = calls d" using Cons.prems(1) w(1) writes_doc by auto
  obtain ds where "length ds = length xs" "c2 = concat (map calls ds)"
    "list_all2 (\<lambda>x d. wr x = Some (calls d)) xs ds"
    using Cons.IH [OF _ w(2)] Cons.prems(1) by auto
  with d w show ?case by (intro exI [of _ "d # ds"]) simp
qed simp

text \<open>An array of such values reads back as one document with one element for each.\<close>

lemma readDoc_array:
  "list_all ok xs \<Longrightarrow> writeAll wr xs = Some cs \<Longrightarrow>
     \<exists>ds. readDoc (WArray # cs @ [WArrayEnd]) = Some (DArray ds) \<and> length ds = length xs \<and>
          list_all2 (\<lambda>x d. wr x = Some (calls d)) xs ds"
proof -
  assume "list_all ok xs" "writeAll wr xs = Some cs"
  then obtain ds where "length ds = length xs" "cs = concat (map calls ds)"
    "list_all2 (\<lambda>x d. wr x = Some (calls d)) xs ds"
    using writeAll_docs by blast
  then show ?thesis using readDoc_calls [of "DArray ds"] by auto
qed

end

end
