(* ===== verification/Context_Formatter.thy ===== *)
theory Context_Formatter
  imports Sample_Sdk Json_Writer "HOL-Library.Sublist"
begin

text \<open>
  \<open>context_formatter.go\<close>: writing a context into an event, with its private attributes redacted.
  The lookup structure for the configured private attributes is a tree of nodes; the code builds
  it by mutating maps through pointers, the model by rebuilding the path. Functions that write
  return the calls they make on the writer; the list of redacted attributes that the code appends
  to through a pointer is passed and returned.
\<close>

section \<open>The lookup structure for private attributes\<close>

text \<open>\<open>children\<close> is \<open>None\<close> for the nil map.\<close>

datatype 'a node = Node (n_attribute: "'a option") (n_children: "(string \<times> 'a node) list option")

type_synonym 'a lookup = "(string \<times> 'a node) list option"

record 'a eventContextFormatter =
  cf_allAttributesPrivate :: "bool"
  cf_privateAttributes :: "'a lookup"

text \<open>One round of the outer loop of \<open>makePrivateAttrLookupData\<close>: the path of one reference.\<close>

fun insertRef :: "'a \<Rightarrow> string list \<Rightarrow> 'a lookup \<Rightarrow> 'a lookup" where
  "insertRef a [] parentMap = parentMap"
| "insertRef a (name # rest) parentMap =
     (let m = (case parentMap of None \<Rightarrow> [] | Some m \<Rightarrow> m);
          nextNode = (case map_of m name of
                        None \<Rightarrow> Node (if rest = [] then Some a else None) None
                      | Some n \<Rightarrow> n)
      in Some (AList.update name
           (Node (n_attribute nextNode) (insertRef a rest (n_children nextNode))) m))"

definition makePrivateAttrLookupData :: "('a, 'z) ref_api_scheme \<Rightarrow> 'a list \<Rightarrow> 'a lookup" where
  "makePrivateAttrLookupData A attrRefList =
     foldl (\<lambda>m a. insertRef a (ref_path A a) m) (Some []) attrRefList"

definition newEventContextFormatter ::
  "('a, 'z) ref_api_scheme \<Rightarrow> bool \<Rightarrow> 'a list \<Rightarrow> 'a eventContextFormatter" where
  "newEventContextFormatter A allAttributesPrivate privateAttributes =
     \<lparr>cf_allAttributesPrivate = allAttributesPrivate,
      cf_privateAttributes = (if length privateAttributes \<noteq> 0
                              then makePrivateAttrLookupData A privateAttributes else None)\<rparr>"

text \<open>
  The loop over the path. When a node is found for a component that is not the last and the node
  has no children, the code goes on to the next component without changing \<open>lookup\<close>.
\<close>

fun checkLoop :: "(string \<times> 'a node) list \<Rightarrow> string list \<Rightarrow> 'a option \<times> bool" where
  "checkLoop lookup [] = (None, False)"
| "checkLoop lookup (pathComponent # rest) =
     (case map_of lookup pathComponent of
        None \<Rightarrow> (None, False)
      | Some nextNode \<Rightarrow>
          if rest = [] then
            (case n_attribute nextNode of
               Some a \<Rightarrow> (Some a, False)
             | None \<Rightarrow> (None, True))
          else (case n_children nextNode of
                  Some ch \<Rightarrow> checkLoop ch rest
                | None \<Rightarrow> checkLoop lookup rest))"

definition checkGlobalPrivateAttrRefs ::
  "'a eventContextFormatter \<Rightarrow> string list \<Rightarrow> 'a option \<times> bool" where
  "checkGlobalPrivateAttrRefs f attrPath =
     (case cf_privateAttributes f of None \<Rightarrow> (None, False) | Some m \<Rightarrow> checkLoop m attrPath)"

section \<open>Redaction\<close>

text \<open>The loop over the context's own private attributes.\<close>

fun privateLoop ::
  "('a, 'z) ref_api_scheme \<Rightarrow> string list \<Rightarrow> bool \<Rightarrow> 'a list \<Rightarrow> bool \<Rightarrow> string list \<Rightarrow>
   bool \<times> bool \<times> string list" where
  "privateLoop A attrPath shouldCheck [] nested redacted = (False, nested, redacted)"
| "privateLoop A attrPath shouldCheck (a # as) nested redacted =
     (let depth = a_depth A a
      in if depth < length attrPath then privateLoop A attrPath shouldCheck as nested redacted
         else if \<not> shouldCheck \<and> depth > length attrPath then
           privateLoop A attrPath shouldCheck as nested redacted
         else if list_all (\<lambda>j. a_component A a j = attrPath ! j) [0..<length attrPath] then
           (if depth = length attrPath then (True, False, redacted @ [a_string A a])
            else privateLoop A attrPath shouldCheck as True redacted)
         else privateLoop A attrPath shouldCheck as nested redacted)"

definition maybeRedact ::
  "('a, 'z) ref_api_scheme \<Rightarrow> ('c, 'v, 'a, 'y) context_api_scheme \<Rightarrow> 'a eventContextFormatter \<Rightarrow>
   'c \<Rightarrow> string list \<Rightarrow> value_type \<Rightarrow> string list \<Rightarrow> bool \<times> bool \<times> string list" where
  "maybeRedact A C f c attrPath valueType redacted =
     (case checkGlobalPrivateAttrRefs f attrPath of
        (Some ref, _) \<Rightarrow> (True, False, redacted @ [a_string A ref])
      | (None, nested) \<Rightarrow>
          privateLoop A attrPath (valueType = ObjectType) (privateRefs C c) nested redacted)"

text \<open>
  A loop that calls a writing function for each key, passing the redacted list along. A result
  \<open>None\<close> means that the nesting of a value exceeded the fuel.
\<close>

fun keysLoop ::
  "(string \<Rightarrow> string list \<Rightarrow> (('v, 'r) wcall list \<times> string list) option) \<Rightarrow> string list \<Rightarrow>
   string list \<Rightarrow> (('v, 'r) wcall list \<times> string list) option" where
  "keysLoop w [] redacted = Some ([], redacted)"
| "keysLoop w (k # ks) redacted =
     (case w k redacted of
        None \<Rightarrow> None
      | Some (cs, redacted) \<Rightarrow>
          (case keysLoop w ks redacted of
             None \<Rightarrow> None
           | Some (cs', redacted) \<Rightarrow> Some (cs @ cs', redacted)))"

fun writeFilteredAttribute ::
  "nat \<Rightarrow> ('v, 'x) value_api_scheme \<Rightarrow> ('a, 'z) ref_api_scheme \<Rightarrow>
   ('c, 'v, 'a, 'y) context_api_scheme \<Rightarrow> 'a eventContextFormatter \<Rightarrow> 'c \<Rightarrow>
   string list \<Rightarrow> string \<Rightarrow> 'v \<Rightarrow> string list \<Rightarrow> (('v, 'r) wcall list \<times> string list) option" where
  "writeFilteredAttribute 0 V A C f c parentPath key val redacted = None"
| "writeFilteredAttribute (Suc n) V A C f c parentPath key val redacted =
     (let path = parentPath @ [key];
          (isRedacted, nested, redacted) = maybeRedact A C f c path (v_type V val) redacted
      in if v_type V val \<noteq> ObjectType then
           Some (if \<not> isRedacted then [WName key, WValue val] else [], redacted)
         else if isRedacted then Some ([], redacted)
         else if \<not> nested then Some ([WName key, WValue val], redacted)
         else (case keysLoop (\<lambda>subKey redacted.
                       writeFilteredAttribute n V A C f c path subKey (v_get V val subKey) redacted)
                     (v_keys V val) redacted of
                 None \<Rightarrow> None
               | Some (cs, redacted) \<Rightarrow>
                   Some (WName key # WObject # cs @ [WObjectEnd], redacted)))"

definition writeContextInternalSingle ::
  "nat \<Rightarrow> ('v, 'x) value_api_scheme \<Rightarrow> ('a, 'z) ref_api_scheme \<Rightarrow>
   ('c, 'v, 'a, 'y) context_api_scheme \<Rightarrow> 'a eventContextFormatter \<Rightarrow> 'c \<Rightarrow> bool \<Rightarrow> bool \<Rightarrow>
   ('v, 'r) wcall list option" where
  "writeContextInternalSingle n V A C f c includeKind redactAnonymous =
     (let redactAll = (cf_allAttributesPrivate f \<or> c_anonymous C c \<and> redactAnonymous)
      in case keysLoop (\<lambda>key redacted.
                let val = c_getValue C c key
                in if v_isDefined V val then
                     (if redactAll then
                        Some ([], redacted @ [a_string A (a_newLiteralRef A key)])
                      else writeFilteredAttribute n V A C f c [] key val redacted)
                   else Some ([], redacted))
              (c_optionalAttributeNames C c) [] of
           None \<Rightarrow> None
         | Some (attrs, redacted) \<Rightarrow>
             Some ([WObject] @
               (if includeKind then [WName ''kind'', WString (c_kind C c)] else []) @
               [WName ''key'', WString (c_key C c)] @
               attrs @
               (if c_anonymous C c then [WName ''anonymous'', WBool True] else []) @
               (if length redacted \<noteq> 0 then
                  [WName ''_meta'', WObject, WName ''redactedAttributes'', WArray] @
                  map WString redacted @ [WArrayEnd, WObjectEnd]
                else []) @
               [WObjectEnd]))"

definition writeContextInternalMulti ::
  "nat \<Rightarrow> ('v, 'x) value_api_scheme \<Rightarrow> ('a, 'z) ref_api_scheme \<Rightarrow>
   ('c, 'v, 'a, 'y) context_api_scheme \<Rightarrow> 'a eventContextFormatter \<Rightarrow> 'c EventInputContext \<Rightarrow> bool \<Rightarrow>
   ('v, 'r) wcall list option" where
  "writeContextInternalMulti n V A C f ec redactAnonymous =
     (case writeAll
             (\<lambda>ic. map_option (\<lambda>cs. WName (c_kind C ic) # cs)
                    (writeContextInternalSingle n V A C f ic False redactAnonymous))
             (individualContexts C (ec_context ec)) of
        None \<Rightarrow> None
      | Some cs \<Rightarrow>
          Some ([WObject, WName ''kind'', WString ''multi''] @ cs @ [WObjectEnd]))"

definition writeContext ::
  "nat \<Rightarrow> ('v, 'x) value_api_scheme \<Rightarrow> ('a, 'z) ref_api_scheme \<Rightarrow>
   ('c, 'v, 'a, 'y) context_api_scheme \<Rightarrow> 'a eventContextFormatter \<Rightarrow> 'c EventInputContext \<Rightarrow> bool \<Rightarrow>
   ('v, 'r) wcall list option" where
  "writeContext n V A C f ec redactAnonymous =
     (case ec_preserialized ec of
        Some raw \<Rightarrow> Some [WRaw raw]
      | None \<Rightarrow>
          (case c_err C (ec_context ec) of
             Some e \<Rightarrow> Some [WError e]
           | None \<Rightarrow>
               if c_multiple C (ec_context ec) then
                 writeContextInternalMulti n V A C f ec redactAnonymous
               else writeContextInternalSingle n V A C f (ec_context ec) True redactAnonymous))"

definition WriteContext ::
  "nat \<Rightarrow> ('v, 'x) value_api_scheme \<Rightarrow> ('a, 'z) ref_api_scheme \<Rightarrow>
   ('c, 'v, 'a, 'y) context_api_scheme \<Rightarrow> 'a eventContextFormatter \<Rightarrow> 'c EventInputContext \<Rightarrow>
   ('v, 'r) wcall list option" where
  "WriteContext n V A C f ec = writeContext n V A C f ec False"

definition WriteContextRedactAnonymous ::
  "nat \<Rightarrow> ('v, 'x) value_api_scheme \<Rightarrow> ('a, 'z) ref_api_scheme \<Rightarrow>
   ('c, 'v, 'a, 'y) context_api_scheme \<Rightarrow> 'a eventContextFormatter \<Rightarrow> 'c EventInputContext \<Rightarrow>
   ('v, 'r) wcall list option" where
  "WriteContextRedactAnonymous n V A C f ec = writeContext n V A C f ec True"

section \<open>What the lookup structure holds\<close>

fun node_at :: "'a lookup \<Rightarrow> string list \<Rightarrow> 'a node option" where
  "node_at m [] = None"
| "node_at None (k # rest) = None"
| "node_at (Some m) (k # rest) =
     (case map_of m k of
        None \<Rightarrow> None
      | Some n \<Rightarrow> if rest = [] then Some n else node_at (n_children n) rest)"

definition attr_at :: "'a lookup \<Rightarrow> string list \<Rightarrow> 'a option option" where
  "attr_at m q = map_option n_attribute (node_at m q)"

definition inner_at :: "'a lookup \<Rightarrow> string list \<Rightarrow> bool" where
  "inner_at m q \<longleftrightarrow> (\<exists>n. node_at m q = Some n \<and> n_children n \<noteq> None)"

lemma attr_at_simps [simp]:
  "attr_at m [] = None" "attr_at None q = None"
  "attr_at (Some []) q = None"
  by (cases q; simp add: attr_at_def)+

lemma inner_at_simps [simp]:
  "\<not> inner_at m []" "\<not> inner_at None q" "\<not> inner_at (Some []) q"
  by (cases q; simp add: inner_at_def)+

lemma attr_at_Cons:
  "attr_at (Some m) (k # rest) =
     (case map_of m k of
        None \<Rightarrow> None
      | Some n \<Rightarrow> if rest = [] then Some (n_attribute n) else attr_at (n_children n) rest)"
  by (simp add: attr_at_def split: option.split)

lemma inner_at_Cons:
  "inner_at (Some m) (k # rest) =
     (case map_of m k of
        None \<Rightarrow> False
      | Some n \<Rightarrow> if rest = [] then n_children n \<noteq> None else inner_at (n_children n) rest)"
  by (simp add: inner_at_def split: option.split)

lemma lookup_cases:
  obtains "lk = None" | m where "lk = Some m"
  by (cases lk) auto

lemma insertRef_eq_None [simp]: "insertRef a p m = None \<longleftrightarrow> p = [] \<and> m = None"
  by (cases p) (simp_all add: Let_def)

lemma attr_at_insertRef:
  "attr_at (insertRef a p m) q =
     (if q \<noteq> [] \<and> prefix q p then
        Some (case attr_at m q of Some x \<Rightarrow> x | None \<Rightarrow> if q = p then Some a else None)
      else attr_at m q)"
proof (induction p arbitrary: m q)
  case Nil
  then show ?case by (cases q) auto
next
  case (Cons name rest)
  define m0 where "m0 = (case m of None \<Rightarrow> [] | Some m \<Rightarrow> m)"
  define nd where "nd = (case map_of m0 name of
      None \<Rightarrow> Node (if rest = [] then Some a else None) None | Some n \<Rightarrow> n)"
  have ins: "insertRef a (name # rest) m =
      Some (AList.update name (Node (n_attribute nd) (insertRef a rest (n_children nd))) m0)"
    by (simp add: m0_def nd_def Let_def)
  have m: "attr_at m q = attr_at (Some m0) q"
    by (cases m) (simp_all add: m0_def)
  show ?case
  proof (cases q)
    case Nil
    then show ?thesis by simp
  next
    case (Cons k ks)
    with Cons.IH show ?thesis
      unfolding ins m
      by (cases "map_of m0 name")
        (auto simp: attr_at_Cons nd_def split: option.split)
  qed
qed

lemma inner_at_insertRef:
  "inner_at (insertRef a p m) q \<longleftrightarrow> inner_at m q \<or> q \<noteq> [] \<and> strict_prefix q p"
proof (induction p arbitrary: m q)
  case Nil
  then show ?case by (cases q) auto
next
  case (Cons name rest)
  define m0 where "m0 = (case m of None \<Rightarrow> [] | Some m \<Rightarrow> m)"
  define nd where "nd = (case map_of m0 name of
      None \<Rightarrow> Node (if rest = [] then Some a else None) None | Some n \<Rightarrow> n)"
  have ins: "insertRef a (name # rest) m =
      Some (AList.update name (Node (n_attribute nd) (insertRef a rest (n_children nd))) m0)"
    by (simp add: m0_def nd_def Let_def)
  have m: "inner_at m q = inner_at (Some m0) q"
    by (cases m) (simp_all add: m0_def)
  show ?case
  proof (cases q)
    case Nil
    then show ?thesis by simp
  next
    case (Cons k ks)
    with Cons.IH show ?thesis
      unfolding ins m
      by (cases "map_of m0 name")
        (auto simp: inner_at_Cons nd_def strict_prefix_def)
  qed
qed

text \<open>The reference that a path of the finished structure belongs to: the first to pass it.\<close>

definition firstRef :: "('a, 'z) ref_api_scheme \<Rightarrow> 'a list \<Rightarrow> string list \<Rightarrow> 'a option" where
  "firstRef A refs q = find (\<lambda>a. prefix q (ref_path A a)) refs"

lemma find_append:
  "find P (xs @ ys) = (case find P xs of None \<Rightarrow> find P ys | Some y \<Rightarrow> Some y)"
  by (induction xs) auto

lemma make_Some: "\<exists>m. makePrivateAttrLookupData A refs = Some m"
proof (induction refs rule: rev_induct)
  case (snoc a refs)
  then have "insertRef a (ref_path A a) (makePrivateAttrLookupData A refs) \<noteq> None" by auto
  then obtain m where "insertRef a (ref_path A a) (makePrivateAttrLookupData A refs) = Some m" by blast
  then show ?case by (simp add: makePrivateAttrLookupData_def)
qed (simp add: makePrivateAttrLookupData_def)

lemma attr_at_make:
  "q \<noteq> [] \<Longrightarrow> attr_at (makePrivateAttrLookupData A refs) q =
     map_option (\<lambda>a. if ref_path A a = q then Some a else None) (firstRef A refs q)"
proof (induction refs rule: rev_induct)
  case Nil
  then show ?case by (simp add: makePrivateAttrLookupData_def firstRef_def)
next
  case (snoc a refs)
  then show ?case
    by (auto simp: makePrivateAttrLookupData_def firstRef_def attr_at_insertRef find_append
        split: option.split)
qed

lemma inner_at_make:
  "inner_at (makePrivateAttrLookupData A refs) q \<longleftrightarrow>
     q \<noteq> [] \<and> (\<exists>a \<in> set refs. strict_prefix q (ref_path A a))"
proof (induction refs rule: rev_induct)
  case Nil
  then show ?case by (simp add: makePrivateAttrLookupData_def)
next
  case (snoc a refs)
  then show ?case by (auto simp: makePrivateAttrLookupData_def inner_at_insertRef)
qed

text \<open>Following a path along which every node has children finds exactly the node at its end.\<close>

lemma checkLoop_node:
  assumes "p \<noteq> []" and "\<forall>q. q \<noteq> [] \<and> strict_prefix q p \<and> attr_at (Some m) q \<noteq> None \<longrightarrow> inner_at (Some m) q"
  shows "checkLoop m p =
    (case attr_at (Some m) p of
       None \<Rightarrow> (None, False)
     | Some None \<Rightarrow> (None, True)
     | Some (Some a) \<Rightarrow> (Some a, False))"
  using assms
proof (induction m p rule: checkLoop.induct)
  case (2 m k rest)
  show ?case
  proof (cases "map_of m k")
    case None
    then show ?thesis by (simp add: attr_at_Cons)
  next
    case (Some n)
    show ?thesis
    proof (cases "rest = []")
      case True
      then show ?thesis using Some by (simp add: attr_at_Cons split: option.split)
    next
      case False
      then have "strict_prefix [k] (k # rest)" by (cases rest) (auto simp: strict_prefix_def)
      then have "inner_at (Some m) [k]" using "2.prems"(2) Some by (auto simp: attr_at_Cons)
      then obtain ch where ch: "n_children n = Some ch" using Some by (auto simp: inner_at_Cons)
      have "inner_at (Some ch) q" if "q \<noteq> []" "strict_prefix q rest" "attr_at (Some ch) q \<noteq> None" for q
        using "2.prems"(2) [rule_format, of "k # q"] that Some ch
        by (simp add: attr_at_Cons inner_at_Cons)
      then show ?thesis
        using "2.IH"(2) [OF Some False ch False] Some False ch by (simp add: attr_at_Cons)
    qed
  qed
qed simp

section \<open>Which references are effective\<close>

text \<open>
  The configured reference the lookup finds for a path, if any: the first reference in the list
  that starts with the path must be the path itself.
\<close>

definition effGlobal :: "('a, 'z) ref_api_scheme \<Rightarrow> 'a list \<Rightarrow> string list \<Rightarrow> 'a option" where
  "effGlobal A refs q =
     (case firstRef A refs q of
        Some a \<Rightarrow> if ref_path A a = q then Some a else None
      | None \<Rightarrow> None)"

lemma firstRef_None: "firstRef A refs q = None \<longleftrightarrow> (\<forall>a \<in> set refs. \<not> prefix q (ref_path A a))"
  by (auto simp: firstRef_def find_None_iff)

lemma firstRef_Some: "firstRef A refs q = Some a \<Longrightarrow> a \<in> set refs \<and> prefix q (ref_path A a)"
  by (auto simp: firstRef_def find_Some_iff)

lemma effGlobal_Some: "effGlobal A refs q = Some a \<Longrightarrow> a \<in> set refs \<and> ref_path A a = q"
  by (auto simp: effGlobal_def dest: firstRef_Some split: option.splits if_splits)

lemma checkGlobal_eq:
  assumes p: "p \<noteq> []" and vis: "\<forall>q. q \<noteq> [] \<and> strict_prefix q p \<longrightarrow> effGlobal A refs q = None"
  shows "checkGlobalPrivateAttrRefs (newEventContextFormatter A allPrivate refs) p =
    (effGlobal A refs p,
     effGlobal A refs p = None \<and> (\<exists>a \<in> set refs. strict_prefix p (ref_path A a)))"
proof (cases "refs = []")
  case True
  then show ?thesis
    by (simp add: checkGlobalPrivateAttrRefs_def newEventContextFormatter_def effGlobal_def
        firstRef_def)
next
  case False
  obtain m where m: "makePrivateAttrLookupData A refs = Some m" using make_Some by blast
  have at: "attr_at (Some m) q = map_option (\<lambda>a. if ref_path A a = q then Some a else None) (firstRef A refs q)"
    if "q \<noteq> []" for q using attr_at_make [OF that, of A refs] by (simp add: m)
  have inn: "inner_at (Some m) q" if q: "q \<noteq> []" "strict_prefix q p" "attr_at (Some m) q \<noteq> None" for q
  proof -
    obtain a where a: "firstRef A refs q = Some a"
      using at [OF q(1)] q(3) by (cases "firstRef A refs q") auto
    moreover have "ref_path A a \<noteq> q" using vis q a by (auto simp: effGlobal_def)
    ultimately show ?thesis
      using q inner_at_make [of A refs q] firstRef_Some [OF a] by (auto simp: m strict_prefix_def)
  qed
  have "checkLoop m p = (case attr_at (Some m) p of
       None \<Rightarrow> (None, False) | Some None \<Rightarrow> (None, True) | Some (Some a) \<Rightarrow> (Some a, False))"
    by (rule checkLoop_node) (use p inn in auto)
  moreover have "(\<exists>a \<in> set refs. strict_prefix p (ref_path A a))"
    if "firstRef A refs p = Some a" "ref_path A a \<noteq> p" for a
    using firstRef_Some [OF that(1)] that(2) by (auto simp: strict_prefix_def)
  moreover have "\<not> (\<exists>a \<in> set refs. strict_prefix p (ref_path A a))" if "firstRef A refs p = None"
    using that by (auto simp: firstRef_None strict_prefix_def)
  ultimately show ?thesis
    using False at [OF p] m
    by (auto simp: checkGlobalPrivateAttrRefs_def newEventContextFormatter_def effGlobal_def
        split: option.split)
qed

text \<open>
  C24: On every path that the formatter visits (no proper part of it is itself redacted) the
  optimised lookup agrees with the list of references it was built from: it finds the reference
  that is effective for the path, and otherwise says whether some reference continues the path.
\<close>

theorem checkGlobal_correct:
  assumes p: "p \<noteq> []" and vis: "\<forall>q. q \<noteq> [] \<and> strict_prefix q p \<longrightarrow> effGlobal A refs q = None"
  shows "checkGlobalPrivateAttrRefs (newEventContextFormatter A allPrivate refs) p =
    (effGlobal A refs p,
     effGlobal A refs p = None \<and> (\<exists>a \<in> set refs. strict_prefix p (ref_path A a)))"
  using p vis by (rule checkGlobal_eq)

theorem checkGlobal_correct_witness:
  "checkGlobalPrivateAttrRefs
     (newEventContextFormatter sampleA False [[''name''], [''address'', ''street'']])
     [''address'', ''street''] = (Some [''address'', ''street''], False)"
proof -
  have "\<forall>q. q \<noteq> [] \<and> strict_prefix q [''address'', ''street''] \<longrightarrow>
      effGlobal sampleA [[''name''], [''address'', ''street'']] q = None"
    by (auto simp: effGlobal_def firstRef_def strict_prefix_def prefix_Cons)
  from checkGlobal_correct [OF _ this, of False] show ?thesis
    by (simp add: effGlobal_def firstRef_def strict_prefix_def)
qed

text \<open>
  C33: A configured reference that comes after a longer reference starting with its path (for
  instance \<open>/address\<close> after \<open>/address/street\<close>) has no effect: the node for its path already
  exists and never gets the attribute, so when the formatter visits that path the lookup reports
  no redaction.
\<close>

theorem global_ref_shadowed:
  assumes b: "b \<in> set refs" and longer: "strict_prefix (ref_path A a) (ref_path A b)"
    and first: "\<forall>x \<in> set refs. ref_path A x \<noteq> ref_path A a"
    and p: "ref_path A a \<noteq> []"
    and vis: "\<forall>q. q \<noteq> [] \<and> strict_prefix q (ref_path A a) \<longrightarrow> effGlobal A (refs @ a # rest) q = None"
  shows "checkGlobalPrivateAttrRefs (newEventContextFormatter A False (refs @ a # rest)) (ref_path A a) =
    (None, True)"
proof -
  obtain c where c: "firstRef A refs (ref_path A a) = Some c"
    using b longer firstRef_None [of A refs "ref_path A a"] by (auto simp: strict_prefix_def)
  then have "firstRef A (refs @ a # rest) (ref_path A a) = Some c"
    by (simp add: firstRef_def find_append)
  moreover have "ref_path A c \<noteq> ref_path A a" using first firstRef_Some [OF c] by blast
  ultimately have "effGlobal A (refs @ a # rest) (ref_path A a) = None"
    by (simp add: effGlobal_def)
  then show ?thesis using checkGlobal_eq [OF p vis, of False] b longer by auto
qed

theorem global_ref_shadowed_witness:
  "checkGlobalPrivateAttrRefs
     (newEventContextFormatter sampleA False [[''address'', ''street''], [''address'']]) [''address''] =
   (None, True)"
  using global_ref_shadowed [of "[''address'', ''street'']" "[[''address'', ''street'']]" sampleA
      "[''address'']" "[]"]
  by (auto simp: strict_prefix_def prefix_Cons)

lemma effGlobal_unshadowed:
  assumes "\<forall>x \<in> set refs. \<not> strict_prefix (ref_path A a) (ref_path A x)"
  shows "\<exists>b. effGlobal A (refs @ a # rest) (ref_path A a) = Some b"
proof (cases "firstRef A refs (ref_path A a)")
  case None
  then show ?thesis by (simp add: effGlobal_def firstRef_def find_append)
next
  case (Some b)
  then have "ref_path A b = ref_path A a"
    using assms firstRef_Some [OF Some] by (auto simp: strict_prefix_def)
  with Some show ?thesis by (simp add: effGlobal_def firstRef_def find_append)
qed

text \<open>
  No configured reference is shadowed: whenever a reference comes after a longer one below it, an
  equal path came before it already. (A reference without a component names nothing.) \<open>seen\<close> are the
  references before the rest of the list.
\<close>

fun unshadowed :: "('a, 'z) ref_api_scheme \<Rightarrow> 'a list \<Rightarrow> 'a list \<Rightarrow> bool" where
  "unshadowed A seen [] \<longleftrightarrow> True"
| "unshadowed A seen (a # rest) \<longleftrightarrow>
     (ref_path A a = [] \<or> (\<exists>x \<in> set seen. ref_path A x = ref_path A a) \<or>
      (\<forall>x \<in> set seen. \<not> strict_prefix (ref_path A a) (ref_path A x))) \<and>
     unshadowed A (seen @ [a]) rest"

lemma unshadowed_split:
  "unshadowed A seen (refs @ a # rest) \<Longrightarrow> ref_path A a \<noteq> [] \<Longrightarrow>
     (\<exists>x \<in> set (seen @ refs). ref_path A x = ref_path A a) \<or>
     (\<forall>x \<in> set (seen @ refs). \<not> strict_prefix (ref_path A a) (ref_path A x))"
proof (induction refs arbitrary: seen)
  case (Cons b refs)
  then show ?case using Cons.IH [of "seen @ [b]"] by simp
qed simp

text \<open>Then the references that take effect are the configured ones, first come first served.\<close>

lemma effGlobal_find:
  assumes un: "unshadowed A [] refs" and q: "q \<noteq> []"
  shows "effGlobal A refs q = find (\<lambda>a. ref_path A a = q) refs"
proof (cases "\<exists>a \<in> set refs. ref_path A a = q")
  case False
  then have "find (\<lambda>a. ref_path A a = q) refs = None" by (auto simp: find_None_iff)
  moreover have "effGlobal A refs q = None"
    using False effGlobal_Some [of A refs q] by (cases "effGlobal A refs q") auto
  ultimately show ?thesis by simp
next
  case True
  then obtain xs a ys where s: "refs = xs @ a # ys" "ref_path A a = q" "\<forall>x \<in> set xs. ref_path A x \<noteq> q"
    using split_list_first_prop [of refs "\<lambda>a. ref_path A a = q"] by blast
  have "\<forall>x \<in> set xs. \<not> strict_prefix q (ref_path A x)"
    using unshadowed_split [of A "[]" xs a ys] un q s by auto
  then have "\<forall>x \<in> set xs. \<not> prefix q (ref_path A x)"
    using s(3) unfolding strict_prefix_def by metis
  then have "firstRef A xs q = None" "find (\<lambda>a. ref_path A a = q) xs = None"
    using s(3) by (auto simp: firstRef_None find_None_iff)
  with s(1,2) show ?thesis by (simp add: effGlobal_def firstRef_def find_append)
qed

section \<open>Redaction is exact\<close>

text \<open>The reference, configured or of the context itself, that makes a path private.\<close>

definition effRef ::
  "('a, 'z) ref_api_scheme \<Rightarrow> 'a list \<Rightarrow> 'a list \<Rightarrow> string list \<Rightarrow> 'a option" where
  "effRef A refs privs q =
     (case effGlobal A refs q of
        Some a \<Rightarrow> Some a
      | None \<Rightarrow> find (\<lambda>a. ref_path A a = q) privs)"

text \<open>
  What an attribute value at a path should show: every property with no private part of its
  path. What should be listed as redacted: the outermost private paths that are present.
\<close>

definition shown ::
  "('v, 'x) value_api_scheme \<Rightarrow> (string list \<Rightarrow> 'a option) \<Rightarrow> string list \<Rightarrow> 'v \<Rightarrow> string list \<Rightarrow> bool"
where
  "shown V eff path v p \<longleftrightarrow> value_has V v p \<and> (\<forall>q. prefix q p \<longrightarrow> eff (path @ q) = None)"

definition hidden ::
  "('v, 'x) value_api_scheme \<Rightarrow> (string list \<Rightarrow> 'a option) \<Rightarrow> string list \<Rightarrow> 'v \<Rightarrow> 'a set" where
  "hidden V eff path v =
     {a. \<exists>p. value_has V v p \<and> eff (path @ p) = Some a \<and>
             (\<forall>q. strict_prefix q p \<longrightarrow> eff (path @ q) = None)}"

lemma effRef_Some:
  "effRef A refs privs q = Some a \<Longrightarrow> a \<in> set refs \<union> set privs \<and> ref_path A a = q"
  by (auto simp: effRef_def find_Some_iff dest: effGlobal_Some split: option.splits)

lemma effRef_find:
  "unshadowed A [] refs \<Longrightarrow> q \<noteq> [] \<Longrightarrow>
     effRef A refs privs q = find (\<lambda>a. ref_path A a = q) (refs @ privs)"
  by (simp add: effRef_def effGlobal_find find_append split: option.split)

lemma effRef_None_global: "effRef A refs privs q = None \<Longrightarrow> effGlobal A refs q = None"
  by (auto simp: effRef_def split: option.splits)

lemma match_prefix:
  assumes "length p \<le> a_depth A a"
  shows "list_all (\<lambda>j. a_component A a j = p ! j) [0..<length p] \<longleftrightarrow> prefix p (ref_path A a)"
proof
  assume m: "list_all (\<lambda>j. a_component A a j = p ! j) [0..<length p]"
  have "p = take (length p) (ref_path A a)"
    by (rule nth_equalityI) (use m assms in \<open>auto simp: list_all_iff\<close>)
  then show "prefix p (ref_path A a)" by (metis take_is_prefix)
next
  assume "prefix p (ref_path A a)"
  then obtain r where r: "ref_path A a = p @ r" by (auto simp: prefix_def)
  have "a_component A a j = p ! j" if "j < length p" for j
    using that assms nth_ref_path [of j A a] by (simp add: r nth_append)
  then show "list_all (\<lambda>j. a_component A a j = p ! j) [0..<length p]" by (simp add: list_all_iff)
qed

lemma privateLoop_eq:
  "privateLoop A p sc as nested red =
     (case find (\<lambda>a. ref_path A a = p) as of
        Some a \<Rightarrow> (True, False, red @ [a_string A a])
      | None \<Rightarrow> (False, nested \<or> sc \<and> (\<exists>a \<in> set as. strict_prefix p (ref_path A a)), red))"
proof (induction as arbitrary: nested)
  case (Cons a as)
  consider "a_depth A a < length p" | "ref_path A a = p" | "strict_prefix p (ref_path A a)"
    | "length p \<le> a_depth A a" "\<not> prefix p (ref_path A a)"
    by (force simp: strict_prefix_def)
  then show ?case
  proof cases
    case 1
    then have "ref_path A a \<noteq> p" "\<not> strict_prefix p (ref_path A a)"
      using prefix_length_le [of p "ref_path A a"] length_ref_path [of A a]
      by (auto simp: strict_prefix_def simp del: length_ref_path)
    then show ?thesis using 1 Cons by (simp add: Let_def split: option.split)
  next
    case 2
    then have "a_depth A a = length p" by (metis length_ref_path)
    then show ?thesis using 2 match_prefix [of p A a] by (simp add: Let_def)
  next
    case 3
    then have "length p < a_depth A a" using prefix_length_less by fastforce
    moreover have "ref_path A a \<noteq> p" "prefix p (ref_path A a)" using 3 by auto
    ultimately show ?thesis using 3
      using Cons.IH [of True] Cons.IH [of nested] match_prefix [of p A a]
      by (cases sc) (simp_all add: Let_def split: option.split)
  next
    case 4
    then have "ref_path A a \<noteq> p" "\<not> strict_prefix p (ref_path A a)" by auto
    then show ?thesis using 4 Cons.IH [of nested] match_prefix [of p A a]
      by (cases sc) (auto simp: Let_def split: option.split)
  qed
qed simp

lemma maybeRedact_eq:
  assumes "p \<noteq> []" and "\<forall>q. q \<noteq> [] \<and> strict_prefix q p \<longrightarrow> effRef A refs (privateRefs C c) q = None"
  shows "maybeRedact A C (newEventContextFormatter A allP refs) c p ty red =
    (case effRef A refs (privateRefs C c) p of
       Some a \<Rightarrow> (True, False, red @ [a_string A a])
     | None \<Rightarrow> (False, (\<exists>a \<in> set refs. strict_prefix p (ref_path A a)) \<or>
           ty = ObjectType \<and> (\<exists>a \<in> set (privateRefs C c). strict_prefix p (ref_path A a)), red))"
proof -
  have "\<forall>q. q \<noteq> [] \<and> strict_prefix q p \<longrightarrow> effGlobal A refs q = None"
    using assms(2) effRef_None_global by blast
  from checkGlobal_eq [OF assms(1) this, of allP] show ?thesis
    by (auto simp: maybeRedact_def effRef_def privateLoop_eq split: option.split)
qed

lemma value_has_leaf: "v_type V v \<noteq> ObjectType \<Longrightarrow> value_has V v p \<longleftrightarrow> p = []"
  by (cases p) (simp_all add: value_has_Cons)

lemma shown_Nil_None: "eff path \<noteq> None \<Longrightarrow> \<not> shown V eff path v p"
  unfolding shown_def by (metis Nil_prefix append_Nil2)

lemma hidden_here: "eff path = Some a \<Longrightarrow> hidden V eff path v = {a}"
proof -
  assume e: "eff path = Some a"
  have nil: "eff (path @ p) = Some b \<and> (\<forall>q. strict_prefix q p \<longrightarrow> eff (path @ q) = None) \<Longrightarrow> p = []" for p b
    using e by (metis append_Nil2 option.distinct(1) strict_prefix_simps(2) list.exhaust)
  have "b = a" if mem: "b \<in> hidden V eff path v" for b
  proof -
    obtain p where p: "eff (path @ p) = Some b" "\<forall>q. strict_prefix q p \<longrightarrow> eff (path @ q) = None"
      using mem by (auto simp: hidden_def)
    with nil have "p = []" by blast
    with p e show ?thesis by simp
  qed
  moreover have "a \<in> hidden V eff path v"
    by (auto simp: hidden_def e intro!: exI [of _ "[]"])
  ultimately show ?thesis by blast
qed

lemma shown_Cons:
  assumes "eff path = None" and "v_type V v = ObjectType"
  shows "shown V eff path v (k # p) \<longleftrightarrow>
    k \<in> set (v_keys V v) \<and> shown V eff (path @ [k]) (v_get V v k) p"
  using assms by (auto simp: shown_def value_has_Cons prefix_Cons)

lemma hidden_object:
  assumes "eff path = None" and "v_type V v = ObjectType"
  shows "hidden V eff path v = (\<Union>k \<in> set (v_keys V v). hidden V eff (path @ [k]) (v_get V v k))"
    (is "?L = ?R")
proof (intro set_eqI iffI)
  fix a assume "a \<in> ?L"
  then obtain p where p: "value_has V v p" "eff (path @ p) = Some a"
    "\<forall>q. strict_prefix q p \<longrightarrow> eff (path @ q) = None" by (auto simp: hidden_def)
  with assms obtain k p' where k: "p = k # p'" by (cases p) auto
  have "eff ((path @ [k]) @ q) = None" if "strict_prefix q p'" for q
    using p(3) [rule_format, of "k # q"] that by (simp add: k)
  then have "a \<in> hidden V eff (path @ [k]) (v_get V v k)" "k \<in> set (v_keys V v)"
    using p(1,2) by (auto simp: hidden_def value_has_Cons k)
  then show "a \<in> ?R" by blast
next
  fix a assume "a \<in> ?R"
  then obtain k p where p: "k \<in> set (v_keys V v)" "value_has V (v_get V v k) p"
    "eff (path @ k # p) = Some a" "\<forall>q. strict_prefix q p \<longrightarrow> eff (path @ k # q) = None"
    by (auto simp: hidden_def)
  have "eff (path @ q) = None" if "strict_prefix q (k # p)" for q
    using that assms(1) p(4) by (cases q) auto
  with p assms(2) show "a \<in> ?L"
    by (auto simp: hidden_def intro!: exI [of _ "k # p"] value_has_below)
qed

text \<open>
  What a piece of output says about a set of keys: it is a list of members of an object, each
  under one of the keys, showing exactly the properties \<open>S\<close>, and the redacted list grew by \<open>R\<close>.
\<close>

definition writesMembers ::
  "('v, 'x) value_api_scheme \<Rightarrow> string list \<Rightarrow> (string \<Rightarrow> string list \<Rightarrow> bool) \<Rightarrow>
   (string \<Rightarrow> string set) \<Rightarrow> ('v, 'r) wcall list \<Rightarrow> string list \<Rightarrow> string list \<Rightarrow> bool" where
  "writesMembers V ks S R cs red red' \<longleftrightarrow>
     (\<exists>ms. cs = memberCalls ms \<and> fst ` set ms \<subseteq> set ks \<and>
        (\<forall>k p. (\<exists>d. (k, d) \<in> set ms \<and> doc_has V d p) \<longleftrightarrow> k \<in> set ks \<and> S k p)) \<and>
     set red' = set red \<union> (\<Union>k \<in> set ks. R k)"

lemma writesMembers_Nil [simp]: "writesMembers V [] S R [] red red"
  by (auto simp: writesMembers_def intro: exI [of _ "[]"])

lemma writesMembers_none:
  "(\<And>p. \<not> S k p) \<Longrightarrow> set red' = set red \<union> R k \<Longrightarrow> writesMembers V [k] S R [] red red'"
  by (auto simp: writesMembers_def intro: exI [of _ "[]"])

lemma writesMembers_one:
  "cs = WName k # calls d \<Longrightarrow> (\<And>p. doc_has V d p \<longleftrightarrow> S k p) \<Longrightarrow> set red' = set red \<union> R k \<Longrightarrow>
     writesMembers V [k] S R cs red red'"
  by (auto simp: writesMembers_def intro!: exI [of _ "[(k, d)]"])

lemma writesMembers_const:
  "writesMembers V [k] (\<lambda>_. S k) (\<lambda>_. R k) cs red red' \<Longrightarrow> writesMembers V [k] S R cs red red'"
  unfolding writesMembers_def by auto metis

lemma writesMembers_append:
  assumes "writesMembers V [k] S R cs red red1" and "writesMembers V ks S R cs' red1 red'"
  shows "writesMembers V (k # ks) S R (cs @ cs') red red'"
proof -
  obtain ms where ms: "cs = memberCalls ms" "fst ` set ms \<subseteq> {k}"
    "\<And>j p. (\<exists>d. (j, d) \<in> set ms \<and> doc_has V d p) \<longleftrightarrow> j = k \<and> S j p" "set red1 = set red \<union> R k"
    using assms(1) by (auto simp: writesMembers_def)
  obtain ns where ns: "cs' = memberCalls ns" "fst ` set ns \<subseteq> set ks"
    "\<And>j p. (\<exists>d. (j, d) \<in> set ns \<and> doc_has V d p) \<longleftrightarrow> j \<in> set ks \<and> S j p"
    "set red' = set red1 \<union> (\<Union>k \<in> set ks. R k)"
    using assms(2) by (auto simp: writesMembers_def)
  have "(\<exists>d. (j, d) \<in> set (ms @ ns) \<and> doc_has V d p) \<longleftrightarrow> j \<in> set (k # ks) \<and> S j p" for j p
    using ms(3) [of j p] ns(3) [of j p] by auto
  moreover have "fst ` set (ms @ ns) \<subseteq> set (k # ks)" using ms(2) ns(2) by auto
  moreover have "cs @ cs' = memberCalls (ms @ ns)" using ms(1) ns(1) by simp
  moreover have "set red' = set red \<union> (\<Union>j \<in> set (k # ks). R j)" using ms(4) ns(4) by auto
  ultimately show ?thesis unfolding writesMembers_def by blast
qed

lemma keysLoop_writes:
  assumes "keysLoop w ks red = Some (cs, red')"
    and "\<And>k red cs red'. k \<in> set ks \<Longrightarrow> w k red = Some (cs, red') \<Longrightarrow>
           writesMembers V [k] S R cs red red'"
  shows "writesMembers V ks S R cs red red'"
  using assms
proof (induction ks arbitrary: red cs)
  case (Cons k ks)
  from Cons.prems(1) obtain c1 r1 c2 where
    w: "w k red = Some (c1, r1)" "keysLoop w ks r1 = Some (c2, red')" "cs = c1 @ c2"
    by (auto split: option.splits)
  have "writesMembers V [k] S R c1 red r1" using Cons.prems(2) w(1) by simp
  moreover have "writesMembers V ks S R c2 r1 red'" using Cons.IH [OF w(2)] Cons.prems(2) by simp
  ultimately show ?case unfolding w(3) by (rule writesMembers_append)
qed simp

lemma keysLoop_total:
  assumes "\<And>k red. k \<in> set ks \<Longrightarrow> \<exists>r. w k red = Some r"
  shows "\<exists>r. keysLoop w ks red = Some r"
  using assms
proof (induction ks arbitrary: red)
  case (Cons k ks)
  obtain c r where w: "w k red = Some (c, r)" using Cons.prems [of k red] by auto
  obtain c' r' where "keysLoop w ks r = Some (c', r')" using Cons.IH [of r] Cons.prems by auto
  with w show ?case by simp
qed simp

lemma writesMembers_object:
  assumes sub: "writesMembers V (v_keys V v)
      (\<lambda>k. shown V eff (path @ [k]) (v_get V v k)) (\<lambda>k. f ` hidden V eff (path @ [k]) (v_get V v k))
      cs red red'"
    and none: "eff path = None" and ty: "v_type V v = ObjectType"
  shows "writesMembers V [key] (\<lambda>_. shown V eff path v) (\<lambda>_. f ` hidden V eff path v)
      (WName key # WObject # cs @ [WObjectEnd]) red red'"
proof -
  obtain ms where ms: "cs = memberCalls ms"
    "\<And>k p. (\<exists>d. (k, d) \<in> set ms \<and> doc_has V d p) \<longleftrightarrow>
       k \<in> set (v_keys V v) \<and> shown V eff (path @ [k]) (v_get V v k) p"
    "set red' = set red \<union> (\<Union>k \<in> set (v_keys V v). f ` hidden V eff (path @ [k]) (v_get V v k))"
    using sub by (auto simp: writesMembers_def)
  have "doc_has V (DObject ms) p \<longleftrightarrow> shown V eff path v p" for p
  proof (cases p)
    case Nil
    then show ?thesis using none by (simp add: shown_def)
  next
    case (Cons k q)
    then show ?thesis using ms(2) [of k q] shown_Cons [of eff path V v k q, OF none ty] by simp
  qed
  moreover have "set red' = set red \<union> f ` hidden V eff path v"
    unfolding ms(3) hidden_object [of eff path, OF none ty] by blast
  ultimately show ?thesis
    by (intro writesMembers_one [where d = "DObject ms"]) (simp_all add: calls_DObject ms(1))
qed

text \<open>When nothing private continues a path, the value there is shown whole.\<close>

lemma shown_whole:
  assumes "eff path = None" and "\<And>q. q \<noteq> [] \<Longrightarrow> value_has V v q \<Longrightarrow> eff (path @ q) = None"
  shows "shown V eff path v p \<longleftrightarrow> value_has V v p" and "hidden V eff path v = {}"
proof -
  have e: "eff (path @ q) = None" if "value_has V v q" for q
    using assms that by (cases "q = []") auto
  have "value_has V v q" if "value_has V v p" "prefix q p" for q p
    using that by (induction arbitrary: q rule: value_has.induct)
      (auto simp: prefix_Cons intro: value_has.intros)
  with e show "shown V eff path v p \<longleftrightarrow> value_has V v p" by (auto simp: shown_def)
  from e show "hidden V eff path v = {}" by (fastforce simp: hidden_def)
qed

lemma writeFilteredAttribute_writes:
  assumes "writeFilteredAttribute n V A C (newEventContextFormatter A allP refs) c pp key v red
      = Some (cs, red')"
    and "\<forall>q. q \<noteq> [] \<and> prefix q pp \<longrightarrow> effRef A refs (privateRefs C c) q = None"
  shows "writesMembers V [key] (\<lambda>_. shown V (effRef A refs (privateRefs C c)) (pp @ [key]) v)
    (\<lambda>_. a_string A ` hidden V (effRef A refs (privateRefs C c)) (pp @ [key]) v) cs red red'"
  using assms
proof (induction n arbitrary: pp key v red cs red')
  case (Suc n)
  let ?f = "newEventContextFormatter A allP refs"
  let ?e = "effRef A refs (privateRefs C c)"
  let ?p = "pp @ [key]"
  have vis: "\<forall>q. q \<noteq> [] \<and> strict_prefix q ?p \<longrightarrow> ?e q = None"
    using Suc.prems(2) by (auto simp: strict_prefix_def)
  have mr: "maybeRedact A C ?f c ?p ty red = (case ?e ?p of
       Some a \<Rightarrow> (True, False, red @ [a_string A a])
     | None \<Rightarrow> (False, (\<exists>a \<in> set refs. strict_prefix ?p (ref_path A a)) \<or>
           ty = ObjectType \<and> (\<exists>a \<in> set (privateRefs C c). strict_prefix ?p (ref_path A a)), red))"
    for ty red by (rule maybeRedact_eq [OF _ vis]) simp
  show ?case
  proof (cases "?e ?p")
    case (Some a)
    then have "cs = [] \<and> red' = red @ [a_string A a]"
      using Suc.prems(1) by (auto simp: mr Let_def split: if_splits)
    moreover have "\<not> shown V ?e ?p v p" for p using Some by (intro shown_Nil_None) simp
    ultimately show ?thesis
      using hidden_here [of ?e ?p a V v, OF Some] by (auto intro!: writesMembers_none)
  next
    case None
    define nested where "nested \<longleftrightarrow> (\<exists>a \<in> set refs. strict_prefix ?p (ref_path A a)) \<or>
        v_type V v = ObjectType \<and> (\<exists>a \<in> set (privateRefs C c). strict_prefix ?p (ref_path A a))"
    have mrN: "maybeRedact A C ?f c ?p (v_type V v) red = (False, nested, red)"
      using None by (simp add: mr nested_def)
    note w = Suc.prems(1) [unfolded writeFilteredAttribute.simps Let_def mrN prod.case]
    show ?thesis
    proof (cases "v_type V v = ObjectType \<and> nested")
      case True
      then obtain sub where sub: "keysLoop (\<lambda>k red. writeFilteredAttribute n V A C ?f c ?p k (v_get V v k) red)
          (v_keys V v) red = Some (sub, red')" "cs = WName key # WObject # sub @ [WObjectEnd]"
        using w by (auto split: option.splits)
      have vis': "\<forall>q. q \<noteq> [] \<and> prefix q ?p \<longrightarrow> ?e q = None"
        using Suc.prems(2) None by auto
      have "writesMembers V (v_keys V v) (\<lambda>k. shown V ?e (?p @ [k]) (v_get V v k))
          (\<lambda>k. a_string A ` hidden V ?e (?p @ [k]) (v_get V v k)) sub red red'"
        by (rule keysLoop_writes [OF sub(1)]) (rule writesMembers_const, rule Suc.IH [OF _ vis'])
      from writesMembers_object [OF this None] True show ?thesis unfolding sub(2) by simp
    next
      case False
      then have out: "cs = [WName key, WValue v] \<and> red' = red"
        using w by (auto split: if_splits)
      have "?e (?p @ q) = None" if "q \<noteq> []" "value_has V v q" for q
      proof (cases "?e (?p @ q)")
        case (Some a)
        from effRef_Some [OF this]
        have a: "a \<in> set refs \<union> set (privateRefs C c)" "ref_path A a = ?p @ q" by simp_all
        have "strict_prefix ?p (ref_path A a)" using that(1) unfolding a(2) strict_prefix_def by simp
        moreover have "v_type V v = ObjectType" 
          using that value_has_leaf [of V v q] by blast
        ultimately show ?thesis using False a(1) by (auto simp: nested_def)
      qed simp
      from shown_whole [of ?e ?p V v, OF None this] out show ?thesis
        by (intro writesMembers_one [where d = "DValue v"]) simp_all
    qed
  qed
qed simp

lemma writeFilteredAttribute_total:
  fixes V :: "('v, 'x) value_api_scheme"
  assumes "value_finite V d" and "d v < n"
  shows "\<exists>r :: ('v, 'r) wcall list \<times> string list. writeFilteredAttribute n V A C f c pp key v red = Some r"
  using assms(2)
proof (induction n arbitrary: pp key v red)
  case (Suc n)
  have "\<exists>r :: ('v, 'r) wcall list \<times> string list.
    keysLoop (\<lambda>k red. writeFilteredAttribute n V A C f c (pp @ [key]) k (v_get V v k) red)
      (v_keys V v) red' = Some r" if "v_type V v = ObjectType" for red'
  proof (rule keysLoop_total)
    fix k red'
    assume "k \<in> set (v_keys V v)"
    with assms(1) that have "d (v_get V v k) < d v" by (rule value_finiteD)
    with Suc.prems have "d (v_get V v k) < n" by simp
    then show "\<exists>r :: ('v, 'r) wcall list \<times> string list.
        writeFilteredAttribute n V A C f c (pp @ [key]) k (v_get V v k) red' = Some r"
      by (rule Suc.IH)
  qed
  then show ?case by (auto simp: Let_def split: prod.split option.split) (metis option.distinct(1))
qed simp

section \<open>Whole contexts\<close>

text \<open>The optional attributes that are written: those with a defined value.\<close>

definition attrNames ::
  "('v, 'x) value_api_scheme \<Rightarrow> ('c, 'v, 'a, 'y) context_api_scheme \<Rightarrow> 'c \<Rightarrow> string list" where
  "attrNames V C c = filter (\<lambda>k. v_isDefined V (c_getValue C c k)) (c_optionalAttributeNames C c)"

text \<open>The document of a single context, given its attribute members and its redacted list.\<close>

definition contextDoc ::
  "('c, 'v, 'a, 'y) context_api_scheme \<Rightarrow> 'c \<Rightarrow> bool \<Rightarrow> (string \<times> ('v, 'r) doc) list \<Rightarrow> string list \<Rightarrow>
   ('v, 'r) doc" where
  "contextDoc C c includeKind attrs redacted =
     DObject ((if includeKind then [(''kind'', DString (c_kind C c))] else []) @
       [(''key'', DString (c_key C c))] @ attrs @
       (if c_anonymous C c then [(''anonymous'', DBool True)] else []) @
       (if redacted \<noteq> [] then
          [(''_meta'', DObject [(''redactedAttributes'', DArray (map DString redacted))])]
        else []))"

lemma calls_contextDoc:
  "calls (contextDoc C c includeKind attrs redacted) =
     [WObject] @ (if includeKind then [WName ''kind'', WString (c_kind C c)] else []) @
     [WName ''key'', WString (c_key C c)] @ memberCalls attrs @
     (if c_anonymous C c then [WName ''anonymous'', WBool True] else []) @
     (if length redacted \<noteq> 0 then
        [WName ''_meta'', WObject, WName ''redactedAttributes'', WArray] @
        map WString redacted @ [WArrayEnd, WObjectEnd]
      else []) @ [WObjectEnd]"
proof -
  have "concat (map calls (map DString redacted)) = map WString redacted"
    by (induction redacted) auto
  then show ?thesis by (simp add: contextDoc_def calls_DObject comp_def)
qed

lemma keysLoop_skip:
  "keysLoop (\<lambda>k red. if P k then w k red else Some ([], red)) ks red = keysLoop w (filter P ks) red"
  by (induction ks arbitrary: red) (auto split: option.split)

lemma keysLoop_all:
  "keysLoop (\<lambda>k red. Some ([], red @ [g k])) ks red = Some ([], red @ map g ks)"
  by (induction ks arbitrary: red) auto

lemma single_redact_all:
  assumes "cf_allAttributesPrivate f \<or> c_anonymous C c \<and> redactAnonymous"
  shows "writeContextInternalSingle n V A C f c includeKind redactAnonymous =
    Some (calls (contextDoc C c includeKind []
      (map (\<lambda>k. a_string A (a_newLiteralRef A k)) (attrNames V C c))))"
  using assms
  by (simp add: writeContextInternalSingle_def calls_contextDoc attrNames_def Let_def
      keysLoop_skip keysLoop_all)

lemma single_filtered:
  assumes "writeContextInternalSingle n V A C (newEventContextFormatter A False refs) c includeKind
      redactAnonymous = Some cs"
    and "\<not> (c_anonymous C c \<and> redactAnonymous)"
  shows "\<exists>attrs redacted. cs = calls (contextDoc C c includeKind attrs redacted) \<and>
    writesMembers V (attrNames V C c)
      (\<lambda>k. shown V (effRef A refs (privateRefs C c)) [k] (c_getValue C c k))
      (\<lambda>k. a_string A ` hidden V (effRef A refs (privateRefs C c)) [k] (c_getValue C c k))
      (memberCalls attrs) [] redacted"
proof -
  let ?f = "newEventContextFormatter A False refs"
  let ?w = "\<lambda>k red. writeFilteredAttribute n V A C ?f c [] k (c_getValue C c k) red"
  have np: "\<not> cf_allAttributesPrivate ?f" by (simp add: newEventContextFormatter_def)
  obtain at redacted where k: "keysLoop ?w (attrNames V C c) [] = Some (at, redacted)"
    and cs: "cs = [WObject] @ (if includeKind then [WName ''kind'', WString (c_kind C c)] else []) @
     [WName ''key'', WString (c_key C c)] @ at @
     (if c_anonymous C c then [WName ''anonymous'', WBool True] else []) @
     (if length redacted \<noteq> 0 then
        [WName ''_meta'', WObject, WName ''redactedAttributes'', WArray] @
        map WString redacted @ [WArrayEnd, WObjectEnd]
      else []) @ [WObjectEnd]"
    using assms np
    by (auto simp: writeContextInternalSingle_def Let_def keysLoop_skip attrNames_def
        split: option.splits simp del: length_0_conv)
  have wm: "writesMembers V (attrNames V C c)
      (\<lambda>k. shown V (effRef A refs (privateRefs C c)) [k] (c_getValue C c k))
      (\<lambda>k. a_string A ` hidden V (effRef A refs (privateRefs C c)) [k] (c_getValue C c k)) at [] redacted"
    by (rule keysLoop_writes [OF k], rule writesMembers_const)
      (drule writeFilteredAttribute_writes, simp_all)
  then obtain attrs where "at = memberCalls attrs" by (auto simp: writesMembers_def)
  with wm cs show ?thesis by (auto simp: calls_contextDoc)
qed

lemma single_total:
  fixes V :: "('v, 'x) value_api_scheme"
  assumes "value_finite V d" and "\<forall>k \<in> set (attrNames V C c). d (c_getValue C c k) < n"
  shows "\<exists>cs :: ('v, 'r) wcall list. writeContextInternalSingle n V A C f c includeKind redactAnonymous = Some cs"
proof (cases "cf_allAttributesPrivate f \<or> c_anonymous C c \<and> redactAnonymous")
  case True
  then show ?thesis by (simp add: single_redact_all)
next
  case False
  have "\<exists>r :: ('v, 'r) wcall list \<times> string list.
    keysLoop (\<lambda>k red. writeFilteredAttribute n V A C f c [] k (c_getValue C c k) red)
      (attrNames V C c) [] = Some r"
    by (rule keysLoop_total, rule writeFilteredAttribute_total [OF assms(1)]) (use assms(2) in auto)
  with False show ?thesis
    by (auto simp: writeContextInternalSingle_def Let_def keysLoop_skip attrNames_def)
qed

lemma memberCalls_inject: "memberCalls ms = memberCalls ns \<longleftrightarrow> ms = ns"
  using calls_inject [of "DObject ms" "DObject ns"] by (simp add: calls_DObject)

lemma single_doc:
  assumes "writeContextInternalSingle n V A C f c includeKind redactAnonymous = Some cs"
    and "f = newEventContextFormatter A allPrivate refs"
  shows "\<exists>attrs redacted. cs = calls (contextDoc C c includeKind attrs redacted)"
proof (cases "allPrivate \<or> c_anonymous C c \<and> redactAnonymous")
  case True
  then have "cf_allAttributesPrivate f \<or> c_anonymous C c \<and> redactAnonymous"
    by (simp add: assms(2) newEventContextFormatter_def)
  then show ?thesis using assms(1) by (auto simp: single_redact_all)
next
  case False
  then show ?thesis using assms single_filtered [of n V A C refs c includeKind redactAnonymous cs] by auto
qed

definition sampleCtx :: "sctx" where
  "sampleCtx =
     SSingle \<lparr>s_kind = ''user'', s_key = ''u'', s_anonymous = False,
       s_attrs = [(''name'', SStr ''n''),
         (''address'', SObj [(''city'', SStr ''c''), (''street'', SStr ''s'')])],
       s_private = [[''name'']]\<rparr>"

definition sampleRun :: "(sval, string) wcall list" where
  "sampleRun =
     [WObject, WName ''kind'', WString ''user'', WName ''key'', WString ''u'',
      WName ''address'', WObject, WName ''city'', WValue (SStr ''c''), WObjectEnd,
      WName ''_meta'', WObject, WName ''redactedAttributes'', WArray,
      WString ''/name'', WString ''/address/street'', WArrayEnd, WObjectEnd, WObjectEnd]"

lemma sampleRun_eq:
  "writeContextInternalSingle 3 sampleV sampleA sampleC
     (newEventContextFormatter sampleA False [[''address'', ''street'']]) sampleCtx True False =
   Some sampleRun"
  by code_simp

text \<open>
  With shadowed references too, redaction is exact with respect to the references that take effect.
\<close>

lemma redaction_effective:
  fixes V :: "('v, 'x) value_api_scheme" and A :: "('a, 'z) ref_api_scheme"
    and C :: "('c, 'v, 'a, 'y) context_api_scheme" and c :: "'c" and cs :: "('v, 'r) wcall list"
  assumes run: "writeContextInternalSingle n V A C (newEventContextFormatter A False refs) c includeKind
      redactAnonymous = Some cs"
    and some: "\<not> (c_anonymous C c \<and> redactAnonymous)"
  defines "eff \<equiv> effRef A refs (privateRefs C c)"
  shows "\<exists>attrs redacted. cs = calls (contextDoc C c includeKind attrs redacted) \<and>
    (\<forall>k p. (\<exists>d. (k, d) \<in> set attrs \<and> doc_has V d p) \<longleftrightarrow>
       k \<in> set (attrNames V C c) \<and> value_has V (c_getValue C c k) p \<and>
       (\<forall>q. prefix q p \<longrightarrow> eff (k # q) = None)) \<and>
    set redacted = a_string A ` {a. \<exists>k p. k \<in> set (attrNames V C c) \<and>
       value_has V (c_getValue C c k) p \<and> eff (k # p) = Some a \<and>
       (\<forall>q. strict_prefix q p \<longrightarrow> eff (k # q) = None)}"
proof -
  obtain attrs redacted where o: "cs = calls (contextDoc C c includeKind attrs redacted)"
    and w: "writesMembers V (attrNames V C c) (\<lambda>k. shown V eff [k] (c_getValue C c k))
      (\<lambda>k. a_string A ` hidden V eff [k] (c_getValue C c k)) (memberCalls attrs) [] redacted"
    using single_filtered [OF run some] unfolding eff_def by blast
  have "set redacted = a_string A ` {a. \<exists>k p. k \<in> set (attrNames V C c) \<and>
       value_has V (c_getValue C c k) p \<and> eff (k # p) = Some a \<and>
       (\<forall>q. strict_prefix q p \<longrightarrow> eff (k # q) = None)}"
    using w by (auto simp: writesMembers_def hidden_def)
  with o w show ?thesis
    by (intro exI [of _ attrs] exI [of _ redacted])
      (simp add: writesMembers_def memberCalls_inject shown_def)
qed

text \<open>
  C3: Redaction is exact. Take a context that is not redacted as a whole, and a configuration that
  lists no private reference after a longer one below it (C33 shows that such a reference is ignored).
  A path is private if a configured reference or a reference of the context names it. The output is
  one object whose attribute members show a property of an attribute value if and only if no part of
  the property's path, from the attribute's name on, is private; and the list of redacted attributes
  names exactly the outermost private paths that the context has, each by the first reference that
  names it, those of the configuration before those of the context.
\<close>

theorem redaction_exact:
  fixes V :: "('v, 'x) value_api_scheme" and A :: "('a, 'z) ref_api_scheme"
    and C :: "('c, 'v, 'a, 'y) context_api_scheme" and c :: "'c" and cs :: "('v, 'r) wcall list"
  assumes run: "writeContextInternalSingle n V A C (newEventContextFormatter A False refs) c includeKind
      redactAnonymous = Some cs"
    and some: "\<not> (c_anonymous C c \<and> redactAnonymous)"
    and order: "unshadowed A [] refs"
  defines "private \<equiv> \<lambda>path. \<exists>a \<in> set refs \<union> set (privateRefs C c). ref_path A a = path"
  shows "\<exists>attrs redacted. cs = calls (contextDoc C c includeKind attrs redacted) \<and>
    (\<forall>k p. (\<exists>d. (k, d) \<in> set attrs \<and> doc_has V d p) \<longleftrightarrow>
       k \<in> set (attrNames V C c) \<and> value_has V (c_getValue C c k) p \<and>
       (\<forall>q. prefix q p \<longrightarrow> \<not> private (k # q))) \<and>
    set redacted = {a_string A (the (find (\<lambda>a. ref_path A a = k # p) (refs @ privateRefs C c))) |k p.
       k \<in> set (attrNames V C c) \<and> value_has V (c_getValue C c k) p \<and> private (k # p) \<and>
       (\<forall>q. strict_prefix q p \<longrightarrow> \<not> private (k # q))}"
proof -
  let ?find = "\<lambda>path. find (\<lambda>a. ref_path A a = path) (refs @ privateRefs C c)"
  have eff: "effRef A refs (privateRefs C c) (k # p) = ?find (k # p)" for k p
    by (rule effRef_find [OF order]) simp
  have none: "?find path = None \<longleftrightarrow> \<not> private path" for path
    by (auto simp: private_def find_None_iff)
  have some_find: "private path \<longleftrightarrow> (\<exists>a. ?find path = Some a)" for path
    using none [of path] by (cases "?find path") auto
  from redaction_effective [OF run some]
  obtain attrs redacted where o: "cs = calls (contextDoc C c includeKind attrs redacted)"
    and vis: "\<forall>k p. (\<exists>d. (k, d) \<in> set attrs \<and> doc_has V d p) \<longleftrightarrow>
       k \<in> set (attrNames V C c) \<and> value_has V (c_getValue C c k) p \<and>
       (\<forall>q. prefix q p \<longrightarrow> \<not> private (k # q))"
    and red: "set redacted = a_string A ` {a. \<exists>k p. k \<in> set (attrNames V C c) \<and>
       value_has V (c_getValue C c k) p \<and> ?find (k # p) = Some a \<and>
       (\<forall>q. strict_prefix q p \<longrightarrow> \<not> private (k # q))}"
    unfolding eff none by blast
  have "set redacted = {a_string A (the (?find (k # p))) |k p. k \<in> set (attrNames V C c) \<and>
       value_has V (c_getValue C c k) p \<and> private (k # p) \<and>
       (\<forall>q. strict_prefix q p \<longrightarrow> \<not> private (k # q))}"
    unfolding red some_find by (force simp: image_iff)
  with o vis show ?thesis by blast
qed

theorem redaction_exact_witness:
  "\<exists>attrs redacted. sampleRun = calls (contextDoc sampleC sampleCtx True attrs redacted) \<and>
     (\<nexists>d. (''name'', d) \<in> set attrs) \<and>
     (\<exists>d. (''address'', d) \<in> set attrs \<and> doc_has sampleV d [''city'']) \<and>
     (\<nexists>d. (''address'', d) \<in> set attrs \<and> doc_has sampleV d [''street''])"
proof -
  let ?private = "\<lambda>path. \<exists>a \<in> set [[''address'', ''street'']] \<union> set (privateRefs sampleC sampleCtx).
    ref_path sampleA a = path"
  have e: "?private [''name'']" "\<not> ?private [''address'']"
    "\<not> ?private [''address'', ''city'']" "?private [''address'', ''street'']"
    by code_simp+
  have "\<not> (c_anonymous sampleC sampleCtx \<and> False)" "unshadowed sampleA [] [[''address'', ''street'']]"
    by simp_all
  from redaction_exact [OF sampleRun_eq this] obtain attrs redacted where
    a: "sampleRun = calls (contextDoc sampleC sampleCtx True attrs redacted)"
    and x: "\<forall>k p. (\<exists>d. (k, d) \<in> set attrs \<and> doc_has sampleV d p) \<longleftrightarrow>
       k \<in> set (attrNames sampleV sampleC sampleCtx) \<and>
       value_has sampleV (c_getValue sampleC sampleCtx k) p \<and>
       (\<forall>q. prefix q p \<longrightarrow> \<not> ?private (k # q))"
    by blast
  have n: "\<nexists>d. (''name'', d) \<in> set attrs"
    using x [rule_format, of "''name''" "[]"] e(1) by auto
  have s: "\<nexists>d. (''address'', d) \<in> set attrs \<and> doc_has sampleV d [''street'']"
    using x [rule_format, of "''address''" "[''street'']"] e(4) by blast
  have "value_has sampleV (c_getValue sampleC sampleCtx ''address'') [''city'']"
    by (simp add: value_has_Cons sampleC_def sampleV_def sampleCtx_def s_one_def)
  moreover have "''address'' \<in> set (attrNames sampleV sampleC sampleCtx)" by code_simp
  moreover have "\<not> ?private (''address'' # q)" if "prefix q [''city'']" for q
    using that e(2,3) by (auto simp: prefix_Cons)
  ultimately have "\<exists>d. (''address'', d) \<in> set attrs \<and> doc_has sampleV d [''city'']"
    using x [rule_format, of "''address''" "[''city'']"] by blast
  with a n s show ?thesis by blast
qed

text \<open>
  C34: When all attributes are private, or the context is anonymous and anonymous contexts are
  redacted, no attribute value is written at all: the output has the kind, the key and the
  anonymous flag, and lists the name of every defined attribute, in order, as redacted.
\<close>

theorem redact_all:
  assumes "allPrivate \<or> c_anonymous C c \<and> redactAnonymous"
  shows "writeContextInternalSingle n V A C (newEventContextFormatter A allPrivate refs) c includeKind
      redactAnonymous =
    Some (calls (contextDoc C c includeKind []
      (map (\<lambda>k. a_string A (a_newLiteralRef A k)) (attrNames V C c))))"
  by (rule single_redact_all) (use assms in \<open>auto simp: newEventContextFormatter_def\<close>)

theorem redact_all_witness:
  "writeContextInternalSingle 0 sampleV sampleA sampleC (newEventContextFormatter sampleA True [])
      sampleCtx True False =
    Some (calls (contextDoc sampleC sampleCtx True [] [''/name'', ''/address'']) :: (sval, string) wcall list)"
proof -
  have n: "map (\<lambda>k. a_string sampleA (a_newLiteralRef sampleA k)) (attrNames sampleV sampleC sampleCtx) =
      [''/name'', ''/address'']"
    by code_simp
  show ?thesis using redact_all [of True sampleC sampleCtx False 0 sampleV sampleA "[]" True] unfolding n by simp
qed

lemma writeContext_total:
  fixes V :: "('v, 'x) value_api_scheme"
  assumes fin: "value_finite V d"
    and fuel: "\<forall>ic \<in> set (ec_context ec # individualContexts C (ec_context ec)).
      \<forall>k \<in> set (attrNames V C ic). d (c_getValue C ic k) < n"
  shows "\<exists>cs :: ('v, 'r) wcall list. writeContext n V A C f ec redactAnonymous = Some cs"
proof -
  have "\<exists>cs :: ('v, 'r) wcall list. writeAll
      (\<lambda>ic. map_option (\<lambda>cs. WName (c_kind C ic) # cs)
         (writeContextInternalSingle n V A C f ic False redactAnonymous))
      (individualContexts C (ec_context ec)) = Some cs"
    by (rule writeAll_total) (use single_total [OF fin] fuel in fastforce)
  moreover have "\<exists>cs :: ('v, 'r) wcall list.
      writeContextInternalSingle n V A C f (ec_context ec) True redactAnonymous = Some cs"
    using fuel by (intro single_total [OF fin]) simp
  ultimately show ?thesis
    by (auto simp: writeContext_def writeContextInternalMulti_def split: option.split)
qed

text \<open>
  C38: Writing a context always ends: if every attribute value is a finite JSON value and the fuel
  exceeds its depth, every path of \<open>writeContext\<close> (preserialized, invalid, multi-kind, single)
  returns a sequence of calls.
\<close>

theorem writeContext_returns:
  fixes V :: "('v, 'x) value_api_scheme"
  assumes fin: "value_finite V d"
    and fuel: "\<forall>ic \<in> set (ec_context ec # individualContexts C (ec_context ec)).
      \<forall>k \<in> set (attrNames V C ic). d (c_getValue C ic k) < n"
  shows "\<exists>cs :: ('v, 'r) wcall list. writeContext n V A C f ec redactAnonymous = Some cs"
  by (rule writeContext_total [OF fin fuel])

theorem writeContext_returns_witness:
  "\<exists>cs :: (sval, string) wcall list.
     writeContext 5 sampleV sampleA sampleC (newEventContextFormatter sampleA False [])
       (Context sampleCtx) False = Some cs"
proof (rule writeContext_returns [OF value_finite_sample])
  show "\<forall>ic \<in> set (ec_context (Context sampleCtx) # individualContexts sampleC (ec_context (Context sampleCtx))).
      \<forall>k \<in> set (attrNames sampleV sampleC ic). s_depth (c_getValue sampleC ic k) < 5"
    by code_simp
qed

text \<open>The whole context formatter writes one document for every context that is not invalid.\<close>

definition writable :: "('c, 'v, 'a, 'y) context_api_scheme \<Rightarrow> 'c EventInputContext \<Rightarrow> bool" where
  "writable C ec \<longleftrightarrow> ec_preserialized ec \<noteq> None \<or> c_err C (ec_context ec) = None"

lemma writeContext_doc:
  assumes "writable C ec"
    and "writeContext n V A C (newEventContextFormatter A allPrivate refs) ec redactAnonymous = Some cs"
  shows "\<exists>d. cs = calls d"
proof (cases "ec_preserialized ec")
  case (Some raw)
  then show ?thesis using assms(2) by (auto simp: writeContext_def intro: exI [of _ "DRaw raw"])
next
  case None
  let ?f = "newEventContextFormatter A allPrivate refs"
  have err: "c_err C (ec_context ec) = None" using assms(1) None by (simp add: writable_def)
  show ?thesis
  proof (cases "c_multiple C (ec_context ec)")
    case True
    then obtain ms where
      m: "writeAll (\<lambda>ic. map_option (\<lambda>cs. WName (c_kind C ic) # cs)
            (writeContextInternalSingle n V A C ?f ic False redactAnonymous))
          (individualContexts C (ec_context ec)) = Some ms"
        "cs = [WObject, WName ''kind'', WString ''multi''] @ ms @ [WObjectEnd]"
      using assms(2) None err
      by (auto simp: writeContext_def writeContextInternalMulti_def split: option.splits)
    have "\<exists>ds. length ds = length (individualContexts C (ec_context ec)) \<and>
        ms = memberCalls (zip (map (c_kind C) (individualContexts C (ec_context ec))) ds) \<and>
        list_all2 (\<lambda>_ _. True) (individualContexts C (ec_context ec)) ds"
      by (rule writeAll_members [OF m(1)]) (drule single_doc [OF _ refl], blast)
    then obtain ds where
      "ms = memberCalls (zip (map (c_kind C) (individualContexts C (ec_context ec))) ds)" by blast
    then have "cs = calls (DObject ((''kind'', DString ''multi'') #
        zip (map (c_kind C) (individualContexts C (ec_context ec))) ds))"
      by (simp add: m(2) calls_DObject)
    then show ?thesis by blast
  next
    case False
    then have "writeContextInternalSingle n V A C ?f (ec_context ec) True redactAnonymous = Some cs"
      using assms(2) None err by (simp add: writeContext_def)
    from single_doc [OF this refl] show ?thesis by blast
  qed
qed

interpretation context_writer: doc_writer
  "\<lambda>ec. writeContext n V A C (newEventContextFormatter A allPrivate refs) ec redactAnonymous"
  "writable C"
  for n V A C allPrivate refs redactAnonymous
  by unfold_locales (rule writeContext_doc)

end
