(* ===== verification/Events_Output.thy ===== *)
theory Events_Output
  imports Context_Formatter Outbox
begin

text \<open>
  \<open>events_output.go\<close>: the JSON of the events and of the summary. A function that writes is the
  sequence of calls it makes on the writer (\<open>Json_Writer\<close>); \<open>None\<close> means only that the fuel for a
  context's nesting ran out. A name is a call on the writer whichever \<open>ObjectState\<close> it goes through,
  since these share the writer: in the migration event the code names \<open>default\<close> through the handle
  of the event while the \<open>evaluation\<close> object is open, which the model shows by its place in the
  sequence.
\<close>

section \<open>The code\<close>

definition FeatureRequestEventKind :: "string" where "FeatureRequestEventKind = ''feature''"
definition FeatureDebugEventKind :: "string" where "FeatureDebugEventKind = ''debug''"
definition CustomEventKind :: "string" where "CustomEventKind = ''custom''"
definition IdentifyEventKind :: "string" where "IdentifyEventKind = ''identify''"
definition MigrationOpEventKind :: "string" where "MigrationOpEventKind = ''migration_op''"
definition IndexEventKind :: "string" where "IndexEventKind = ''index''"
definition SummaryEventKind :: "string" where "SummaryEventKind = ''summary''"

lemmas kind_defs =
  FeatureRequestEventKind_def FeatureDebugEventKind_def CustomEventKind_def IdentifyEventKind_def
  MigrationOpEventKind_def IndexEventKind_def SummaryEventKind_def

text \<open>\<open>obj.Maybe(name, cond)\<close> names the property, and the call that follows writes, only if \<open>cond\<close>.\<close>

definition writeMaybe :: "string \<Rightarrow> bool \<Rightarrow> ('v, 'r) wcall \<Rightarrow> ('v, 'r) wcall list" where
  "writeMaybe name cond c = (if cond then [WName name, c] else [])"

text \<open>\<open>IntValue()\<close> and \<open>StringValue()\<close> are zero values for an undefined option.\<close>

definition intValue :: "optInt \<Rightarrow> int" where
  "intValue x = (case x of None \<Rightarrow> 0 | Some i \<Rightarrow> i)"

definition stringValue :: "optString \<Rightarrow> string" where
  "stringValue x = (case x of None \<Rightarrow> [] | Some s \<Rightarrow> s)"

definition writeSamplingRatio :: "optInt \<Rightarrow> ('v, 'r) wcall list" where
  "writeSamplingRatio val =
     (case val of
        None \<Rightarrow> []
      | Some v \<Rightarrow> if v = 1 then [] else [WName ''samplingRatio'', WInt v])"

definition beginEventFields :: "string \<Rightarrow> millis \<Rightarrow> ('v, 'r) wcall list" where
  "beginEventFields kind creationDate =
     [WName ''kind'', WString kind,
      WName ''creationDate'', WFloat64 (float64_of_u64 creationDate)]"

definition writeContextKeys ::
  "('c, 'v, 'a, 'y) context_api_scheme \<Rightarrow> 'c \<Rightarrow> ('v, 'r) wcall list" where
  "writeContextKeys C c =
     [WName ''contextKeys'', WObject] @
     concat (map (\<lambda>ic. [WName (c_kind C ic), WString (c_key C ic)]) (individualContexts C c)) @
     [WObjectEnd]"

definition writeMigrationOpMeasurements ::
  "('c, 'v, 'r) MigrationOpEventData \<Rightarrow> ('v, 'r) wcall list" where
  "writeMigrationOpMeasurements evt =
     (if length (mo_Invoked evt) > 0 then
        [WObject, WName ''key'', WString ''invoked'', WName ''values'', WObject] @
        concat (map (\<lambda>origin. [WName origin, WBool True]) (mo_Invoked evt)) @
        [WObjectEnd, WObjectEnd]
      else []) @
     (case mo_ConsistencyCheck evt of
        None \<Rightarrow> []
      | Some check \<Rightarrow>
          [WObject, WName ''key'', WString ''consistent'',
           WName ''value'', WBool (cc_Consistent check),
           WName ''samplingRatio'', WInt (cc_SamplingRatio check), WObjectEnd]) @
     (if length (mo_Latency evt) > 0 then
        [WObject, WName ''key'', WString ''latency_ms'', WName ''values'', WObject] @
        concat (map (\<lambda>(origin, val). [WName origin, WInt val]) (mo_Latency evt)) @
        [WObjectEnd, WObjectEnd]
      else []) @
     (if length (mo_Error evt) > 0 then
        [WObject, WName ''key'', WString ''error'', WName ''values'', WObject] @
        concat (map (\<lambda>origin. [WName origin, WBool True]) (mo_Error evt)) @
        [WObjectEnd, WObjectEnd]
      else [])"

definition writeOutputEvent ::
  "nat \<Rightarrow> ('v, 'x) value_api_scheme \<Rightarrow> ('a, 'z) ref_api_scheme \<Rightarrow>
   ('c, 'v, 'a, 'y) context_api_scheme \<Rightarrow> 'r reason_api \<Rightarrow> 'a eventContextFormatter \<Rightarrow>
   ('c, 'v, 'r) anyEvent \<Rightarrow> ('v, 'r) wcall list option" where
  "writeOutputEvent n V A C R f evt =
     (case evt of
        RawEvent data \<Rightarrow> Some [WRaw data]
      | Evaluation evt \<Rightarrow>
          (let kind = (if ed_debug evt then FeatureDebugEventKind else FeatureRequestEventKind)
           in case (if ed_debug evt
                    then WriteContext n V A C f (be_Context (ed_BaseEvent evt))
                    else WriteContextRedactAnonymous n V A C f (be_Context (ed_BaseEvent evt))) of
                None \<Rightarrow> None
              | Some ctx \<Rightarrow>
                  Some ([WObject] @
                    beginEventFields kind (be_CreationDate (ed_BaseEvent evt)) @
                    [WName ''key'', WString (ed_Key evt)] @
                    writeMaybe ''version'' (ed_Version evt \<noteq> None) (WInt (intValue (ed_Version evt))) @
                    [WName ''context''] @ ctx @
                    writeMaybe ''variation'' (ed_Variation evt \<noteq> None) (WInt (intValue (ed_Variation evt))) @
                    [WName ''value'', WValue (ed_Value evt)] @
                    [WName ''default'', WValue (ed_Default evt)] @
                    writeMaybe ''prereqOf'' (ed_PrereqOf evt \<noteq> None)
                      (WString (stringValue (ed_PrereqOf evt))) @
                    (if r_getKind R (ed_Reason evt) \<noteq> [] then [WName ''reason'', WReason (ed_Reason evt)]
                     else []) @
                    writeSamplingRatio (ed_SamplingRatio evt) @
                    [WObjectEnd]))
      | Custom evt \<Rightarrow>
          Some ([WObject] @
            beginEventFields CustomEventKind (be_CreationDate (cu_BaseEvent evt)) @
            [WName ''key'', WString (cu_Key evt)] @
            (if \<not> v_isNull V (cu_Data evt) then [WName ''data'', WValue (cu_Data evt)] else []) @
            writeContextKeys C (ec_context (be_Context (cu_BaseEvent evt))) @
            writeMaybe ''metricValue'' (cu_HasMetric evt) (WFloat64 (cu_MetricValue evt)) @
            writeSamplingRatio (cu_SamplingRatio evt) @
            [WObjectEnd])
      | Identify evt \<Rightarrow>
          (case WriteContext n V A C f (be_Context (id_BaseEvent evt)) of
             None \<Rightarrow> None
           | Some ctx \<Rightarrow>
               Some ([WObject] @
                 beginEventFields IdentifyEventKind (be_CreationDate (id_BaseEvent evt)) @
                 [WName ''context''] @ ctx @
                 writeSamplingRatio (id_SamplingRatio evt) @
                 [WObjectEnd]))
      | MigrationOp evt \<Rightarrow>
          Some ([WObject] @
            beginEventFields MigrationOpEventKind (be_CreationDate (mo_BaseEvent evt)) @
            [WName ''operation'', WString (mo_Op evt)] @
            writeSamplingRatio (mo_SamplingRatio evt) @
            writeContextKeys C (ec_context (be_Context (mo_BaseEvent evt))) @
            [WName ''evaluation'', WObject] @
            [WName ''key'', WString (mo_FlagKey evt)] @
            [WName ''value'', WValue (det_Value (mo_Evaluation evt))] @
            [WName ''reason'', WReason (det_Reason (mo_Evaluation evt))] @
            [WName ''default'', WString (mo_Default evt)] @
            writeMaybe ''variation'' (det_VariationIndex (mo_Evaluation evt) \<noteq> None)
              (WInt (intValue (det_VariationIndex (mo_Evaluation evt)))) @
            writeMaybe ''version'' (mo_Version evt \<noteq> None) (WInt (intValue (mo_Version evt))) @
            [WObjectEnd] @
            [WName ''measurements'', WArray] @ writeMigrationOpMeasurements evt @ [WArrayEnd] @
            [WObjectEnd])
      | Index evt \<Rightarrow>
          (case WriteContext n V A C f (be_Context evt) of
             None \<Rightarrow> None
           | Some ctx \<Rightarrow>
               Some ([WObject] @
                 beginEventFields IndexEventKind (be_CreationDate evt) @
                 [WName ''context''] @ ctx @
                 [WObjectEnd])))"

definition writeCounter :: "counterKey \<times> 'v counterValue \<Rightarrow> ('v, 'r) wcall list" where
  "writeCounter = (\<lambda>(key, val).
     [WObject] @
     writeMaybe ''variation'' (ck_variation key \<noteq> None) (WInt (intValue (ck_variation key))) @
     (if ck_version key \<noteq> None then [WName ''version'', WInt (intValue (ck_version key))]
      else [WName ''unknown'', WBool True]) @
     [WName ''value'', WValue (cv_flagValue val)] @
     [WName ''count'', WInt (sint (cv_count val))] @
     [WObjectEnd])"

definition writeFlagSummary :: "string \<times> 'v flagSummary \<Rightarrow> ('v, 'r) wcall list" where
  "writeFlagSummary = (\<lambda>(flagKey, flag).
     [WName flagKey, WObject] @
     [WName ''default'', WValue (fs_defaultValue flag)] @
     [WName ''counters'', WArray] @ concat (map writeCounter (fs_counters flag)) @ [WArrayEnd] @
     [WName ''contextKinds'', WArray] @ map WString (fs_contextKinds flag) @ [WArrayEnd] @
     [WObjectEnd])"

definition writeSummaryEvent :: "'v eventSummary \<Rightarrow> ('v, 'r) wcall list" where
  "writeSummaryEvent s =
     [WObject] @
     [WName ''kind'', WString SummaryEventKind] @
     [WName ''startDate'', WFloat64 (float64_of_u64 (es_startDate s))] @
     [WName ''endDate'', WFloat64 (float64_of_u64 (es_endDate s))] @
     [WName ''features'', WObject] @ concat (map writeFlagSummary (es_flags s)) @ [WObjectEnd] @
     [WObjectEnd]"

text \<open>The result: the bytes (here the calls that write them; \<open>None\<close> for nil) and the count.\<close>

definition makeOutputEvents ::
  "nat \<Rightarrow> ('v, 'x) value_api_scheme \<Rightarrow> ('a, 'z) ref_api_scheme \<Rightarrow>
   ('c, 'v, 'a, 'y) context_api_scheme \<Rightarrow> 'r reason_api \<Rightarrow> 'a eventContextFormatter \<Rightarrow>
   ('c, 'v, 'r) anyEvent list \<Rightarrow> 'v eventSummary \<Rightarrow> (('v, 'r) wcall list option \<times> int) option" where
  "makeOutputEvents n V A C R f events summary =
     (case writeAll (writeOutputEvent n V A C R f) events of
        None \<Rightarrow> None
      | Some cs \<Rightarrow>
          (let cnt = int (length events);
               (cs, cnt) = (if hasCounters summary then (cs @ writeSummaryEvent summary, cnt + 1)
                            else (cs, cnt))
           in Some (if cnt > 0 then (Some (WArray # cs @ [WArrayEnd]), cnt) else (None, 0))))"

section \<open>The documents of the events\<close>

definition maybeMember :: "string \<Rightarrow> bool \<Rightarrow> ('v, 'r) doc \<Rightarrow> (string \<times> ('v, 'r) doc) list" where
  "maybeMember name cond d = (if cond then [(name, d)] else [])"

definition baseMembers :: "string \<Rightarrow> millis \<Rightarrow> (string \<times> ('v, 'r) doc) list" where
  "baseMembers kind date =
     [(''kind'', DString kind), (''creationDate'', DFloat64 (float64_of_u64 date))]"

definition samplingMember :: "optInt \<Rightarrow> (string \<times> ('v, 'r) doc) list" where
  "samplingMember val = maybeMember ''samplingRatio'' (val \<noteq> None \<and> val \<noteq> Some 1) (DInt (intValue val))"

definition keysMember ::
  "('c, 'v, 'a, 'y) context_api_scheme \<Rightarrow> 'c \<Rightarrow> string \<times> ('v, 'r) doc" where
  "keysMember C c = (''contextKeys'',
     DObject (map (\<lambda>ic. (c_kind C ic, DString (c_key C ic))) (individualContexts C c)))"

definition measurementDoc :: "string \<Rightarrow> (string \<times> ('v, 'r) doc) list \<Rightarrow> ('v, 'r) doc" where
  "measurementDoc key vs = DObject [(''key'', DString key), (''values'', DObject vs)]"

definition measurementDocs :: "('c, 'v, 'r) MigrationOpEventData \<Rightarrow> ('v, 'r) doc list" where
  "measurementDocs evt =
     (if mo_Invoked evt \<noteq> [] then
        [measurementDoc ''invoked'' (map (\<lambda>origin. (origin, DBool True)) (mo_Invoked evt))] else []) @
     (case mo_ConsistencyCheck evt of
        None \<Rightarrow> []
      | Some check \<Rightarrow>
          [DObject [(''key'', DString ''consistent''), (''value'', DBool (cc_Consistent check)),
             (''samplingRatio'', DInt (cc_SamplingRatio check))]]) @
     (if mo_Latency evt \<noteq> [] then
        [measurementDoc ''latency_ms'' (map (\<lambda>(origin, v). (origin, DInt v)) (mo_Latency evt))] else []) @
     (if mo_Error evt \<noteq> [] then
        [measurementDoc ''error'' (map (\<lambda>origin. (origin, DBool True)) (mo_Error evt))] else [])"

text \<open>The schema of an event, given the document of its context (used by three of the kinds).\<close>

definition eventDoc ::
  "('v, 'x) value_api_scheme \<Rightarrow> ('c, 'v, 'a, 'y) context_api_scheme \<Rightarrow> 'r reason_api \<Rightarrow>
   ('v, 'r) doc \<Rightarrow> ('c, 'v, 'r) anyEvent \<Rightarrow> ('v, 'r) doc" where
  "eventDoc V C R ctx evt =
     (case evt of
        RawEvent data \<Rightarrow> DRaw data
      | Evaluation e \<Rightarrow>
          DObject (baseMembers (if ed_debug e then ''debug'' else ''feature'')
              (be_CreationDate (ed_BaseEvent e)) @
            [(''key'', DString (ed_Key e))] @
            maybeMember ''version'' (ed_Version e \<noteq> None) (DInt (intValue (ed_Version e))) @
            [(''context'', ctx)] @
            maybeMember ''variation'' (ed_Variation e \<noteq> None) (DInt (intValue (ed_Variation e))) @
            [(''value'', DValue (ed_Value e)), (''default'', DValue (ed_Default e))] @
            maybeMember ''prereqOf'' (ed_PrereqOf e \<noteq> None) (DString (stringValue (ed_PrereqOf e))) @
            maybeMember ''reason'' (r_getKind R (ed_Reason e) \<noteq> []) (DReason (ed_Reason e)) @
            samplingMember (ed_SamplingRatio e))
      | Custom e \<Rightarrow>
          DObject (baseMembers ''custom'' (be_CreationDate (cu_BaseEvent e)) @
            [(''key'', DString (cu_Key e))] @
            maybeMember ''data'' (\<not> v_isNull V (cu_Data e)) (DValue (cu_Data e)) @
            [keysMember C (ec_context (be_Context (cu_BaseEvent e)))] @
            maybeMember ''metricValue'' (cu_HasMetric e) (DFloat64 (cu_MetricValue e)) @
            samplingMember (cu_SamplingRatio e))
      | Identify e \<Rightarrow>
          DObject (baseMembers ''identify'' (be_CreationDate (id_BaseEvent e)) @
            [(''context'', ctx)] @ samplingMember (id_SamplingRatio e))
      | MigrationOp e \<Rightarrow>
          DObject (baseMembers ''migration_op'' (be_CreationDate (mo_BaseEvent e)) @
            [(''operation'', DString (mo_Op e))] @
            samplingMember (mo_SamplingRatio e) @
            [keysMember C (ec_context (be_Context (mo_BaseEvent e))),
             (''evaluation'', DObject
               ([(''key'', DString (mo_FlagKey e)),
                 (''value'', DValue (det_Value (mo_Evaluation e))),
                 (''reason'', DReason (det_Reason (mo_Evaluation e))),
                 (''default'', DString (mo_Default e))] @
                maybeMember ''variation'' (det_VariationIndex (mo_Evaluation e) \<noteq> None)
                  (DInt (intValue (det_VariationIndex (mo_Evaluation e)))) @
                maybeMember ''version'' (mo_Version e \<noteq> None) (DInt (intValue (mo_Version e))))),
             (''measurements'', DArray (measurementDocs e))])
      | Index e \<Rightarrow>
          DObject (baseMembers ''index'' (be_CreationDate e) @ [(''context'', ctx)]))"

text \<open>The context an event writes in full, and whether an anonymous one is redacted there.\<close>

fun eventContext :: "('c, 'v, 'r) anyEvent \<Rightarrow> ('c EventInputContext \<times> bool) option" where
  "eventContext (Evaluation e) = Some (be_Context (ed_BaseEvent e), \<not> ed_debug e)"
| "eventContext (Identify e) = Some (be_Context (id_BaseEvent e), False)"
| "eventContext (Index e) = Some (be_Context e, False)"
| "eventContext _ = None"

lemma memberCalls_map:
  "memberCalls (map f xs) = concat (map (\<lambda>x. WName (fst (f x)) # calls (snd (f x))) xs)"
  by (induction xs) (auto simp: memberCalls_def split: prod.split)

lemma memberCalls_maybe [simp]:
  "calls d = [c] \<Longrightarrow> memberCalls (maybeMember name cond d) = writeMaybe name cond c"
  by (simp add: maybeMember_def writeMaybe_def)

lemma memberCalls_base [simp]: "memberCalls (baseMembers kind date) = beginEventFields kind date"
  by (simp add: baseMembers_def beginEventFields_def)

lemma memberCalls_sampling [simp]: "memberCalls (samplingMember val) = writeSamplingRatio val"
  by (cases val) (simp_all add: samplingMember_def writeSamplingRatio_def maybeMember_def intValue_def)

lemma memberCalls_keys [simp]:
  "memberCalls (keysMember C c # ms) = writeContextKeys C c @ memberCalls ms"
  by (simp add: keysMember_def writeContextKeys_def calls_DObject memberCalls_map)

lemma calls_measurementDoc:
  "calls (measurementDoc key vs) =
     [WObject, WName ''key'', WString key, WName ''values'', WObject] @ memberCalls vs @
     [WObjectEnd, WObjectEnd]"
  by (simp add: measurementDoc_def calls_DObject)

lemma calls_measurements:
  "concat (map calls (measurementDocs evt)) = writeMigrationOpMeasurements evt"
  unfolding measurementDocs_def writeMigrationOpMeasurements_def
  by (cases "mo_ConsistencyCheck evt")
    (simp_all add: calls_measurementDoc memberCalls_map calls_DObject split_def)

lemma writeOutputEvent_calls:
  assumes "\<And>ec redact. eventContext evt = Some (ec, redact) \<Longrightarrow>
    writeContext n V A C f ec redact = Some (calls d)"
  shows "writeOutputEvent n V A C R f evt = Some (calls (eventDoc V C R d evt))"
proof (cases evt)
  case (Evaluation e)
  then have "writeContext n V A C f (be_Context (ed_BaseEvent e)) (\<not> ed_debug e) = Some (calls d)"
    using assms by simp
  with Evaluation show ?thesis
    by (cases "ed_debug e") (simp_all add: writeOutputEvent_def eventDoc_def
        WriteContext_def WriteContextRedactAnonymous_def calls_DObject kind_defs writeMaybe_def
        maybeMember_def)
next
  case (Identify e)
  then show ?thesis
    using assms [of "be_Context (id_BaseEvent e)" False]
    by (simp add: writeOutputEvent_def eventDoc_def WriteContext_def calls_DObject kind_defs)
next
  case (Custom e)
  then show ?thesis
    by (simp add: writeOutputEvent_def eventDoc_def calls_DObject kind_defs writeMaybe_def
        maybeMember_def)
next
  case (MigrationOp e)
  then show ?thesis
    by (simp add: writeOutputEvent_def eventDoc_def calls_DObject kind_defs writeMaybe_def
        maybeMember_def calls_measurements)
next
  case (Index e)
  then show ?thesis
    using assms [of "be_Context e" False]
    by (simp add: writeOutputEvent_def eventDoc_def WriteContext_def calls_DObject kind_defs)
next
  case (RawEvent data)
  then show ?thesis by (simp add: writeOutputEvent_def eventDoc_def)
qed

definition eventWritable ::
  "('c, 'v, 'a, 'y) context_api_scheme \<Rightarrow> ('c, 'v, 'r) anyEvent \<Rightarrow> bool" where
  "eventWritable C evt \<longleftrightarrow> (\<forall>ec redact. eventContext evt = Some (ec, redact) \<longrightarrow> writable C ec)"

lemma writeOutputEvent_None:
  fixes evt :: "('c, 'v, 'r) anyEvent"
  shows "eventContext evt = Some (ec, redact) \<Longrightarrow>
    (writeContext n V A C f ec redact :: ('v, 'r) wcall list option) = None \<Longrightarrow>
     writeOutputEvent n V A C R f evt = None"
proof (cases evt)
  case (Evaluation e)
  assume "eventContext evt = Some (ec, redact)"
    and "(writeContext n V A C f ec redact :: ('v, 'r) wcall list option) = None"
  with Evaluation show ?thesis
    by (cases "ed_debug e")
      (auto simp: writeOutputEvent_def WriteContext_def WriteContextRedactAnonymous_def)
qed (auto simp: writeOutputEvent_def WriteContext_def)

lemma writeOutputEvent_doc:
  fixes evt :: "('c, 'v, 'r) anyEvent"
  assumes ok: "eventWritable C evt"
    and run: "writeOutputEvent n V A C R (newEventContextFormatter A allPrivate refs) evt = Some cs"
  shows "\<exists>d :: ('v, 'r) doc. cs = calls (eventDoc V C R d evt) \<and>
    (\<forall>ec redact. eventContext evt = Some (ec, redact) \<longrightarrow>
       writeContext n V A C (newEventContextFormatter A allPrivate refs) ec redact = Some (calls d))"
proof (cases "eventContext evt")
  case None
  then show ?thesis
    using run writeOutputEvent_calls [of evt n V A C "newEventContextFormatter A allPrivate refs" _ R]
    by auto
next
  case (Some p)
  obtain ec redact where p: "p = (ec, redact)" by fastforce
  let ?w = "writeContext n V A C (newEventContextFormatter A allPrivate refs) ec redact
    :: ('v, 'r) wcall list option"
  have "?w \<noteq> None" using run writeOutputEvent_None Some p by fastforce
  then obtain cs' where w: "?w = Some cs'" by blast
  moreover have "writable C ec" using ok Some p by (simp add: eventWritable_def)
  ultimately obtain d where d: "cs' = calls d" using writeContext_doc by blast
  have "writeOutputEvent n V A C R (newEventContextFormatter A allPrivate refs) evt =
      Some (calls (eventDoc V C R d evt))"
    by (rule writeOutputEvent_calls) (use Some p w d in auto)
  with run w d Some p show ?thesis by auto
qed

interpretation event_writer: doc_writer
  "writeOutputEvent n V A C R (newEventContextFormatter A allPrivate refs)" "eventWritable C"
  for n V A C R allPrivate refs
  by unfold_locales (use writeOutputEvent_doc in blast)

section \<open>The document of the summary\<close>

definition counterDoc :: "counterKey \<times> 'v counterValue \<Rightarrow> ('v, 'r) doc" where
  "counterDoc = (\<lambda>(key, val).
     DObject (maybeMember ''variation'' (ck_variation key \<noteq> None) (DInt (intValue (ck_variation key))) @
       (if ck_version key \<noteq> None then [(''version'', DInt (intValue (ck_version key)))]
        else [(''unknown'', DBool True)]) @
       [(''value'', DValue (cv_flagValue val)), (''count'', DInt (sint (cv_count val)))]))"

definition flagDoc :: "'v flagSummary \<Rightarrow> ('v, 'r) doc" where
  "flagDoc flag = DObject
     [(''default'', DValue (fs_defaultValue flag)),
      (''counters'', DArray (map counterDoc (fs_counters flag))),
      (''contextKinds'', DArray (map DString (fs_contextKinds flag)))]"

definition summaryDoc :: "'v eventSummary \<Rightarrow> ('v, 'r) doc" where
  "summaryDoc s = DObject
     [(''kind'', DString ''summary''),
      (''startDate'', DFloat64 (float64_of_u64 (es_startDate s))),
      (''endDate'', DFloat64 (float64_of_u64 (es_endDate s))),
      (''features'', DObject (map (\<lambda>(fk, flag). (fk, flagDoc flag)) (es_flags s)))]"

lemma calls_counterDoc: "calls (counterDoc kv) = writeCounter kv"
  by (cases kv) (simp add: counterDoc_def writeCounter_def calls_DObject)

lemma calls_strings: "concat (map (calls \<circ> DString) ks) = map WString ks"
  by (induction ks) simp_all

lemma concat_calls_counterDoc: "concat (map (calls \<circ> counterDoc) kvs) = concat (map writeCounter kvs)"
  by (simp add: comp_def calls_counterDoc)

lemma writeFlagSummary_calls: "writeFlagSummary (fk, flag) = WName fk # calls (flagDoc flag)"
  by (simp add: flagDoc_def writeFlagSummary_def calls_DObject concat_calls_counterDoc calls_strings)

lemma writeSummaryEvent_calls: "writeSummaryEvent s = calls (summaryDoc s)"
proof -
  have "concat (map writeFlagSummary (es_flags s)) =
      memberCalls (map (\<lambda>(fk, flag). (fk, flagDoc flag)) (es_flags s))"
    unfolding memberCalls_map
    by (rule arg_cong [where f = concat], rule map_cong) (auto simp: writeFlagSummary_calls)
  then show ?thesis
    by (simp add: summaryDoc_def writeSummaryEvent_def calls_DObject SummaryEventKind_def)
qed

text \<open>
  The object that a flag's entry in the summary of a run must be: its counters are one object for
  each pair of variation and version that was evaluated.
\<close>

definition flagEntry ::
  "('c, 'v, 'a, 'z) context_api_scheme \<Rightarrow> string \<Rightarrow> ('c, 'v, 'r) EvaluationData list \<Rightarrow>
   ('v, 's) doc \<Rightarrow> bool" where
  "flagEntry C fk eds d \<longleftrightarrow>
     (let ms = filter (\<lambda>ed. ed_Key ed = fk) eds
      in \<exists>keys kinds. d = DObject
           [(''default'', DValue (ed_Default (hd ms))),
            (''counters'', DArray (map (\<lambda>key.
               counterDoc (key, runCounter (filter (matches fk key) eds))) keys)),
            (''contextKinds'', DArray (map DString kinds))] \<and>
         distinct keys \<and> set keys = counterKeyOf ` set ms \<and>
         distinct kinds \<and> set kinds = runKinds C fk eds)"

lemma find_hd: "find P xs = (if filter P xs = [] then None else Some (hd (filter P xs)))"
  by (induction xs) auto

lemma flags_run:
  fixes eds :: "('c, 'v, 'r) EvaluationData list"
  assumes "(fk, flag) \<in> set (es_flags (eventsState (summarizeAll C newEventSummarizer eds)))"
  shows "flagEntry C fk eds (flagDoc flag)"
proof -
  let ?s = "eventsState (summarizeAll C newEventSummarizer eds)"
  let ?ms = "filter (\<lambda>ed. ed_Key ed = fk) eds"
  have wf: "summary_wf ?s" by (simp add: summary_wf_run)
  then have m: "map_of (es_flags ?s) fk = Some flag" and f: "flag_wf flag"
    using assms by (auto simp: summary_wf_def map_of_eq_Some_mem)
  have "Some (fs_defaultValue flag) = map_option ed_Default (find (\<lambda>ed. ed_Key ed = fk) eds)"
    using m defaultOf_run [of C eds fk] by (simp add: defaultOf_def)
  then have d: "fs_defaultValue flag = ed_Default (hd ?ms)"
    by (auto simp: find_hd split: if_splits)
  have k: "set (fs_contextKinds flag) = runKinds C fk eds"
    using m kindsOf_run [of C eds fk] by (simp add: kindsOf_def)
  have c: "map_of (fs_counters flag) key =
      (if filter (matches fk key) eds = [] then None
       else Some (runCounter (filter (matches fk key) eds)))" for key
    using m counterOf_run [of C eds fk key] by (simp add: counterOf_def)
  let ?keys = "map fst (fs_counters flag)"
  have "set ?keys = dom (map_of (fs_counters flag))" by (simp add: dom_map_of_conv_image_fst)
  then have "set ?keys = counterKeyOf ` set ?ms"
    by (auto simp: c dom_def filter_empty_conv matches_def)
  moreover have "fs_counters flag =
      map (\<lambda>key. (key, runCounter (filter (matches fk key) eds))) ?keys"
  proof -
    have "kv = (fst kv, runCounter (filter (matches fk (fst kv)) eds))"
      if "kv \<in> set (fs_counters flag)" for kv
    proof -
      have "map_of (fs_counters flag) (fst kv) = Some (snd kv)"
        using f that by (simp add: flag_wf_def map_of_eq_Some_mem)
      then show ?thesis by (cases kv) (auto simp: c split: if_splits)
    qed
    then show ?thesis by (simp add: map_idI)
  qed
  then have "map counterDoc (fs_counters flag) =
      map (\<lambda>key. counterDoc (key, runCounter (filter (matches fk key) eds))) ?keys"
    by (metis (no_types, lifting) comp_def list.map_comp map_eq_conv)
  ultimately show ?thesis
    using f d k unfolding flagEntry_def Let_def flagDoc_def
    by (intro exI [of _ ?keys] exI [of _ "fs_contextKinds flag"])
      (simp add: flag_wf_def gomap_wf_def)
qed

lemma flagKeys_run:
  "fst ` set (es_flags (eventsState (summarizeAll C newEventSummarizer eds))) = ed_Key ` set eds"
  by (induction eds rule: rev_induct)
    (simp_all add: summarizeEvent_def Let_def, simp add: newEventSummary_def)

lemma writeOutputEvent_returns:
  fixes evt :: "('c, 'v, 'r) anyEvent"
  assumes "\<And>ec redact. eventContext evt = Some (ec, redact) \<Longrightarrow>
    \<exists>cs :: ('v, 'r) wcall list. writeContext n V A C f ec redact = Some cs"
  shows "\<exists>cs. writeOutputEvent n V A C R f evt = Some cs"
proof (cases evt)
  case (Evaluation e)
  then show ?thesis
    using assms [of "be_Context (ed_BaseEvent e)" "\<not> ed_debug e"]
    by (cases "ed_debug e")
      (auto simp: writeOutputEvent_def WriteContext_def WriteContextRedactAnonymous_def)
next
  case (Identify e)
  then show ?thesis
    using assms [of "be_Context (id_BaseEvent e)" False]
    by (auto simp: writeOutputEvent_def WriteContext_def)
next
  case (Index e)
  then show ?thesis
    using assms [of "be_Context e" False] by (auto simp: writeOutputEvent_def WriteContext_def)
qed (simp_all add: writeOutputEvent_def)

text \<open>The fuel that the nesting of an event's attribute values asks for.\<close>

definition eventFuel ::
  "('v, 'x) value_api_scheme \<Rightarrow> ('c, 'v, 'a, 'y) context_api_scheme \<Rightarrow> ('v \<Rightarrow> nat) \<Rightarrow> nat \<Rightarrow>
   ('c, 'v, 'r) anyEvent \<Rightarrow> bool" where
  "eventFuel V C d n evt \<longleftrightarrow>
     (case eventContext evt of
        None \<Rightarrow> True
      | Some (ec, redact) \<Rightarrow>
          list_all (\<lambda>ic. list_all (\<lambda>k. d (c_getValue C ic k) < n) (attrNames V C ic))
            (ec_context ec # individualContexts C (ec_context ec)))"

lemma writeOutputEvent_total:
  assumes "value_finite V d" and "eventFuel V C d n evt"
  shows "\<exists>cs. writeOutputEvent n V A C R f evt = Some cs"
  by (rule writeOutputEvent_returns)
    (rule writeContext_total [OF assms(1)],
      use assms(2) in \<open>auto simp: eventFuel_def list_all_iff\<close>)

lemma makeOutputEvents_total:
  fixes V :: "('v, 'x) value_api_scheme" and events :: "('c, 'v, 'r) anyEvent list"
  assumes "value_finite V d" and "list_all (eventFuel V C d n) events"
  shows "\<exists>r. makeOutputEvents n V A C R f events summary = Some r"
proof -
  have "\<exists>cs. writeAll (writeOutputEvent n V A C R f) events = Some cs"
    by (rule writeAll_total) (use writeOutputEvent_total assms in \<open>fastforce simp: list_all_iff\<close>)
  then show ?thesis by (auto simp: makeOutputEvents_def Let_def)
qed

section \<open>Properties\<close>

text \<open>
  C19: The JSON of an event is one document of the schema \<open>eventDoc\<close>: for an event whose context is
  valid or preserialized, the calls that \<open>writeOutputEvent\<close> makes read back as exactly the members
  the schema lists for that kind of event, with the document that the context formatter writes for
  its context (anonymous contexts redacted in feature events only).
\<close>

theorem event_document:
  fixes evt :: "('c, 'v, 'r) anyEvent"
  assumes "eventWritable C evt"
    and "writeOutputEvent n V A C R (newEventContextFormatter A allPrivate refs) evt = Some cs"
  shows "\<exists>d :: ('v, 'r) doc. readDoc cs = Some (eventDoc V C R d evt) \<and>
    (\<forall>ec redact. eventContext evt = Some (ec, redact) \<longrightarrow>
       writeContext n V A C (newEventContextFormatter A allPrivate refs) ec redact = Some (calls d))"
  using writeOutputEvent_doc [OF assms] by auto

definition sampleEvents :: "(sctx, sval, string) anyEvent list" where
  "sampleEvents =
     [Index \<lparr>be_CreationDate = 10, be_Context = Context sampleCtx\<rparr>,
      Evaluation (sampleEval ''f'' 1 20), RawEvent ''{}'']"

lemma sampleEvents_writable: "list_all (eventWritable sampleC) sampleEvents"
  by (simp add: sampleEvents_def eventWritable_def writable_def sampleC_def sampleCtx_def sampleEval_def
      sampleUser_def Context_def)

lemma sampleEvents_fuel: "list_all (eventFuel sampleV sampleC s_depth 3) sampleEvents"
  by code_simp

theorem event_document_witness:
  "\<exists>cs d. writeOutputEvent 3 sampleV sampleA sampleC sampleR (newEventContextFormatter sampleA False [])
      (Evaluation (sampleEval ''f'' 1 20)) = Some cs \<and>
    readDoc cs = Some (eventDoc sampleV sampleC sampleR d (Evaluation (sampleEval ''f'' 1 20)))"
proof -
  let ?w = "writeOutputEvent 3 sampleV sampleA sampleC sampleR
    (newEventContextFormatter sampleA False []) (Evaluation (sampleEval ''f'' 1 20))"
  have "eventFuel sampleV sampleC s_depth 3 (Evaluation (sampleEval ''f'' 1 20))"
    using sampleEvents_fuel by (simp add: sampleEvents_def)
  then obtain cs where cs: "?w = Some cs" using writeOutputEvent_total [OF value_finite_sample] by blast
  have "eventWritable sampleC (Evaluation (sampleEval ''f'' 1 20) :: (sctx, sval, string) anyEvent)"
    using sampleEvents_writable by (simp add: sampleEvents_def)
  from event_document [OF this cs] cs show ?thesis by blast
qed

text \<open>
  C18: The body of an analytics post is one JSON array with one element for each event, in order,
  followed by the summary document if there is one; the count returned is its length. Nothing is
  returned exactly when there is neither an event nor a counter.
\<close>

theorem output_array:
  fixes events :: "('c, 'v, 'r) anyEvent list"
  assumes ok: "list_all (eventWritable C) events"
    and run: "makeOutputEvents n V A C R (newEventContextFormatter A allPrivate refs) events summary =
      Some (out, cnt)"
  shows "cnt = int (length events) + (if hasCounters summary then 1 else 0) \<and>
    (out = None \<longleftrightarrow> events = [] \<and> \<not> hasCounters summary) \<and>
    (\<forall>cs. out = Some cs \<longrightarrow> (\<exists>ds. readDoc cs =
         Some (DArray (ds @ (if hasCounters summary then [summaryDoc summary] else []))) \<and>
       list_all2 (\<lambda>evt d. writeOutputEvent n V A C R (newEventContextFormatter A allPrivate refs) evt =
         Some (calls d)) events ds))"
proof -
  let ?w = "writeOutputEvent n V A C R (newEventContextFormatter A allPrivate refs)"
  obtain cs where cs: "writeAll ?w events = Some cs"
    using run by (auto simp: makeOutputEvents_def split: option.splits)
  obtain ds where ds: "cs = concat (map calls ds)" "list_all2 (\<lambda>e d. ?w e = Some (calls d)) events ds"
    using event_writer.writeAll_docs [OF ok cs] by blast
  let ?ds = "ds @ (if hasCounters summary then [summaryDoc summary] else [])"
  have "WArray # cs @ (if hasCounters summary then writeSummaryEvent summary else []) @ [WArrayEnd] =
      calls (DArray ?ds)"
    by (simp add: ds(1) writeSummaryEvent_calls)
  then have "readDoc (WArray # cs @ (if hasCounters summary then writeSummaryEvent summary else []) @
      [WArrayEnd]) = Some (DArray ?ds)"
    by (simp only: readDoc_calls)
  with run cs ds(2) show ?thesis
    by (auto simp: makeOutputEvents_def Let_def split: if_splits)
qed

theorem output_array_witness:
  "\<exists>cs ds. makeOutputEvents 3 sampleV sampleA sampleC sampleR (newEventContextFormatter sampleA False [])
      sampleEvents (eventsState (summarizeEvent sampleC newEventSummarizer (sampleEval ''f'' 1 20))) =
    Some (Some cs, 4) \<and> readDoc cs = Some (DArray ds) \<and> length ds = 4"
proof -
  let ?s = "eventsState (summarizeEvent sampleC newEventSummarizer (sampleEval ''f'' 1 20))"
  let ?w = "makeOutputEvents 3 sampleV sampleA sampleC sampleR (newEventContextFormatter sampleA False [])
      sampleEvents ?s"
  obtain out cnt where w: "?w = Some (out, cnt)"
    using makeOutputEvents_total [OF value_finite_sample sampleEvents_fuel] by fastforce
  note r = output_array [OF sampleEvents_writable w]
  have "length sampleEvents = 3" by (simp add: sampleEvents_def)
  with r have "cnt = 4" and "out \<noteq> None" by (auto simp: sampleEvents_def)
  then obtain cs where cs: "out = Some cs" by blast
  with r obtain ds where ds: "readDoc cs = Some (DArray (ds @ [summaryDoc ?s]))"
    "list_all2 (\<lambda>evt d. writeOutputEvent 3 sampleV sampleA sampleC sampleR
       (newEventContextFormatter sampleA False []) evt = Some (calls d)) sampleEvents ds"
    by auto
  then have "length (ds @ [summaryDoc ?s]) = 4"
    using list_all2_lengthD [OF ds(2)] by (simp add: \<open>length sampleEvents = 3\<close>)
  with w cs ds(1) \<open>cnt = 4\<close> show ?thesis by blast
qed

text \<open>
  C17: The summary event of a run of evaluations reads back as an object whose \<open>features\<close> have
  exactly one member for each flag that was evaluated. The member has the default of the flag's
  first evaluation, the kinds of all contexts seen with it, and exactly one counter object for each
  pair of variation and version, with its number of evaluations and the value of the first of them.
\<close>

theorem summary_document:
  fixes C :: "('c, 'v, 'a, 'z) context_api_scheme" and eds :: "('c, 'v, 'r) EvaluationData list"
  defines "s \<equiv> eventsState (summarizeAll C newEventSummarizer eds)"
  shows "\<exists>features. (readDoc (writeSummaryEvent s) :: ('v, 's) doc option) =
      Some (DObject [(''kind'', DString ''summary''),
        (''startDate'', DFloat64 (float64_of_u64 (es_startDate s))),
        (''endDate'', DFloat64 (float64_of_u64 (es_endDate s))),
        (''features'', DObject features)]) \<and>
    distinct (map fst features) \<and> set (map fst features) = ed_Key ` set eds \<and>
    (\<forall>(fk, d) \<in> set features. flagEntry C fk eds d)"
proof -
  let ?fs = "map (\<lambda>(fk, flag). (fk, flagDoc flag)) (es_flags s) :: (string \<times> ('v, 's) doc) list"
  have names: "map fst ?fs = map fst (es_flags s)" by (induction "es_flags s") auto
  have "summary_wf s" by (simp add: s_def summary_wf_run)
  then have "distinct (map fst ?fs)" unfolding names by (simp add: summary_wf_def gomap_wf_def)
  moreover have "set (map fst ?fs) = ed_Key ` set eds" unfolding names by (simp add: s_def flagKeys_run)
  moreover have "\<forall>(fk, d) \<in> set ?fs. flagEntry C fk eds d" by (auto simp: s_def flags_run)
  ultimately show ?thesis
    by (intro exI [of _ ?fs]) (simp add: writeSummaryEvent_calls summaryDoc_def)
qed

theorem summary_document_witness:
  "\<exists>features d. (readDoc (writeSummaryEvent (eventsState (summarizeAll sampleC newEventSummarizer
        [sampleEval ''f'' 1 20, sampleEval ''f'' 1 30]))) :: (sval, string) doc option) =
      Some (DObject [(''kind'', DString ''summary''), (''startDate'', DFloat64 (float64_of_u64 20)),
        (''endDate'', DFloat64 (float64_of_u64 30)), (''features'', DObject features)]) \<and>
    (''f'', d) \<in> set features \<and>
    flagEntry sampleC ''f'' [sampleEval ''f'' 1 20, sampleEval ''f'' 1 30] d"
proof -
  let ?eds = "[sampleEval ''f'' 1 20, sampleEval ''f'' 1 30]"
  have s: "es_startDate (eventsState (summarizeAll sampleC newEventSummarizer ?eds)) = 20"
    "es_endDate (eventsState (summarizeAll sampleC newEventSummarizer ?eds)) = 30"
    by (simp_all add: summarizeAll_def dates_summarize newEventSummary_def) (simp_all add: sampleEval_def)
  have k: "ed_Key ` set ?eds = {''f''}" by (simp add: sampleEval_def)
  from summary_document [of sampleC ?eds, unfolded s k] obtain features :: "(string \<times> (sval, string) doc) list"
    where f: "readDoc (writeSummaryEvent (eventsState (summarizeAll sampleC newEventSummarizer ?eds))) =
      Some (DObject [(''kind'', DString ''summary''), (''startDate'', DFloat64 (float64_of_u64 20)),
        (''endDate'', DFloat64 (float64_of_u64 30)), (''features'', DObject features)])"
      "set (map fst features) = {''f''}" "\<forall>(fk, d) \<in> set features. flagEntry sampleC fk ?eds d"
    by (elim exE conjE) (rule that)
  have "''f'' \<in> fst ` set features" using f(2) by simp
  then obtain d where d: "(''f'', d) \<in> set features" by (elim imageE) (metis prod.collapse)
  have "flagEntry sampleC ''f'' ?eds d" using bspec [OF f(3) d] unfolding prod.case .
  with f(1) d show ?thesis by (intro exI conjI)
qed

text \<open>
  C39: Formatting a payload always ends: if attribute values are finite JSON values and the fuel
  exceeds their depth, \<open>makeOutputEvents\<close> returns, for any events and summary.
\<close>

theorem output_returns:
  fixes V :: "('v, 'x) value_api_scheme" and events :: "('c, 'v, 'r) anyEvent list"
  assumes "value_finite V d" and "list_all (eventFuel V C d n) events"
  shows "\<exists>r. makeOutputEvents n V A C R f events summary = Some r"
  by (rule makeOutputEvents_total [OF assms])

theorem output_returns_witness:
  "\<exists>r. makeOutputEvents 3 sampleV sampleA sampleC sampleR (newEventContextFormatter sampleA False [])
      sampleEvents newEventSummary = Some r"
  by (rule output_returns [OF value_finite_sample sampleEvents_fuel])

end
