(* ===== verification/Diagnostic_Events.thy ===== *)
theory Diagnostic_Events
  imports Sample_Sdk "HOL-Library.Sublist"
begin

text \<open>
  \<open>diagnostic_events.go\<close>: the state of the diagnostics manager and the JSON values it produces.
  The manager's lock makes each operation atomic, so an operation is one function of the state. The
  clock, the random identifier and the constants of the \<open>runtime\<close> package are arguments. Values
  are built with the constructors of \<open>value_api\<close>; an object builder is the list of its members.
\<close>

section \<open>The code\<close>

record diagnosticStreamInitInfo =
  si_timestamp :: "millis"
  si_failed :: "bool"
  si_durationMillis :: "64 word"

text \<open>The optional channel of the gate: the number of buffered items, and whether it is closed.\<close>

datatype gate = NilGate | Gate nat bool

record 'v DiagnosticsManager =
  dm_id :: "'v"
  dm_configData :: "'v"
  dm_sdkData :: "'v"
  dm_startTime :: "millis"
  dm_dataSinceTime :: "millis"
  dm_streamInits :: "diagnosticStreamInitInfo list"
  dm_periodicEventGate :: "gate"

definition NewDiagnosticID :: "'v value_api \<Rightarrow> string \<Rightarrow> string \<Rightarrow> 'v" where
  "NewDiagnosticID V uuid sdkKey =
     (let sdkKeySuffix = (if length sdkKey > 6 then drop (length sdkKey - 6) sdkKey else sdkKey)
      in v_object V [(''diagnosticId'', v_string V uuid), (''sdkKeySuffix'', v_string V sdkKeySuffix)])"

definition NewDiagnosticsManager ::
  "'v \<Rightarrow> 'v \<Rightarrow> 'v \<Rightarrow> millis \<Rightarrow> gate \<Rightarrow> 'v DiagnosticsManager" where
  "NewDiagnosticsManager ident configData sdkData startTime periodicEventGate =
     \<lparr>dm_id = ident, dm_configData = configData, dm_sdkData = sdkData, dm_startTime = startTime,
      dm_dataSinceTime = startTime, dm_streamInits = [], dm_periodicEventGate = periodicEventGate\<rparr>"

definition RecordStreamInit ::
  "'v DiagnosticsManager \<Rightarrow> millis \<Rightarrow> bool \<Rightarrow> 64 word \<Rightarrow> 'v DiagnosticsManager" where
  "RecordStreamInit m timestamp failed durationMillis =
     m\<lparr>dm_streamInits := dm_streamInits m @
        [\<lparr>si_timestamp = timestamp, si_failed = failed, si_durationMillis = durationMillis\<rparr>]\<rparr>"

definition normalizeOSName :: "string \<Rightarrow> string" where
  "normalizeOSName osName =
     (if osName = ''darwin'' then ''MacOS''
      else if osName = ''windows'' then ''Windows''
      else if osName = ''linux'' then ''Linux''
      else osName)"

record goRuntime =
  rt_Version :: "string"
  rt_GOOS :: "string"
  rt_GOARCH :: "string"

definition CreateInitEvent :: "'v value_api \<Rightarrow> goRuntime \<Rightarrow> 'v DiagnosticsManager \<Rightarrow> 'v" where
  "CreateInitEvent V rt m =
     (let platformData = v_object V
            [(''name'', v_string V ''Go''),
             (''goVersion'', v_string V (rt_Version rt)),
             (''osName'', v_string V (normalizeOSName (rt_GOOS rt))),
             (''osArch'', v_string V (rt_GOARCH rt))]
      in v_object V
           [(''kind'', v_string V ''diagnostic-init''),
            (''id'', dm_id m),
            (''creationDate'', v_float V (float64_of_u64 (dm_startTime m))),
            (''sdk'', dm_sdkData m),
            (''configuration'', dm_configData m),
            (''platform'', platformData)])"

text \<open>A receive takes a buffered item; on a channel that is closed and empty it succeeds at once.\<close>

definition CanSendStatsEvent :: "'v DiagnosticsManager \<Rightarrow> bool \<times> 'v DiagnosticsManager" where
  "CanSendStatsEvent m =
     (case dm_periodicEventGate m of
        NilGate \<Rightarrow> (True, m)
      | Gate (Suc n) closed \<Rightarrow> (True, m\<lparr>dm_periodicEventGate := Gate n closed\<rparr>)
      | Gate 0 closed \<Rightarrow> (closed, m))"

definition streamInitValue :: "'v value_api \<Rightarrow> diagnosticStreamInitInfo \<Rightarrow> 'v" where
  "streamInitValue V si = v_object V
     [(''timestamp'', v_float V (float64_of_u64 (si_timestamp si))),
      (''failed'', v_bool V (si_failed si)),
      (''durationMillis'', v_float V (float64_of_u64 (si_durationMillis si)))]"

text \<open>\<open>timestamp\<close> is what the clock reads in the call.\<close>

definition CreateStatsEventAndReset ::
  "'v value_api \<Rightarrow> millis \<Rightarrow> 'v DiagnosticsManager \<Rightarrow> gocount \<Rightarrow> gocount \<Rightarrow> int \<Rightarrow>
   'v \<times> 'v DiagnosticsManager" where
  "CreateStatsEventAndReset V timestamp m droppedEvents deduplicatedUsers eventsInLastBatch =
     (let event = v_object V
            [(''kind'', v_string V ''diagnostic''),
             (''id'', dm_id m),
             (''creationDate'', v_float V (float64_of_u64 timestamp)),
             (''dataSinceDate'', v_float V (float64_of_u64 (dm_dataSinceTime m))),
             (''droppedEvents'', v_int V (sint droppedEvents)),
             (''deduplicatedUsers'', v_int V (sint deduplicatedUsers)),
             (''eventsInLastBatch'', v_int V eventsInLastBatch),
             (''streamInits'', v_array V (map (streamInitValue V) (dm_streamInits m)))]
      in (event, m\<lparr>dm_streamInits := [], dm_dataSinceTime := timestamp\<rparr>))"

section \<open>What the events of a run report\<close>

text \<open>
  A run interleaves, in any order, the connections that the stream processor records and the
  statistics events that the event processor creates.
\<close>

datatype diagOp =
    OpStreamInit diagnosticStreamInitInfo
  | OpStats millis gocount gocount int

fun diagStep :: "'v value_api \<Rightarrow> 'v DiagnosticsManager \<Rightarrow> diagOp \<Rightarrow> 'v list \<times> 'v DiagnosticsManager" where
  "diagStep V m (OpStreamInit si) =
     ([], RecordStreamInit m (si_timestamp si) (si_failed si) (si_durationMillis si))"
| "diagStep V m (OpStats now dropped dedup batch) =
     (let (event, m) = CreateStatsEventAndReset V now m dropped dedup batch in ([event], m))"

fun diagRun :: "'v value_api \<Rightarrow> 'v DiagnosticsManager \<Rightarrow> diagOp list \<Rightarrow> 'v list \<times> 'v DiagnosticsManager" where
  "diagRun V m [] = ([], m)"
| "diagRun V m (op # ops) =
     (let (es, m) = diagStep V m op; (es', m) = diagRun V m ops in (es @ es', m))"

record statsReport =
  rp_created :: "millis"
  rp_since :: "millis"
  rp_counts :: "gocount \<times> gocount \<times> int"
  rp_inits :: "diagnosticStreamInitInfo list"

definition reportValue :: "'v value_api \<Rightarrow> 'v \<Rightarrow> statsReport \<Rightarrow> 'v" where
  "reportValue V ident r =
     (case rp_counts r of (dropped, dedup, batch) \<Rightarrow>
        v_object V
          [(''kind'', v_string V ''diagnostic''), (''id'', ident),
           (''creationDate'', v_float V (float64_of_u64 (rp_created r))),
           (''dataSinceDate'', v_float V (float64_of_u64 (rp_since r))),
           (''droppedEvents'', v_int V (sint dropped)),
           (''deduplicatedUsers'', v_int V (sint dedup)),
           (''eventsInLastBatch'', v_int V batch),
           (''streamInits'', v_array V (map (streamInitValue V) (rp_inits r)))])"

text \<open>The reports follow each other in time: each starts where the one before it ended.\<close>

fun chained :: "millis \<Rightarrow> statsReport list \<Rightarrow> millis \<Rightarrow> bool" where
  "chained t [] t' \<longleftrightarrow> t = t'"
| "chained t (r # rs) t' \<longleftrightarrow> rp_since r = t \<and> chained (rp_created r) rs t'"

definition recordedInits :: "diagOp list \<Rightarrow> diagnosticStreamInitInfo list" where
  "recordedInits ops = concat (map (\<lambda>op. case op of OpStreamInit si \<Rightarrow> [si] | _ \<Rightarrow> []) ops)"

definition statsCalls :: "diagOp list \<Rightarrow> (millis \<times> gocount \<times> gocount \<times> int) list" where
  "statsCalls ops = concat (map (\<lambda>op. case op of OpStats t a b c \<Rightarrow> [(t, a, b, c)] | _ \<Rightarrow> []) ops)"

lemma diagRun_reports:
  "diagRun V m ops = (events, m') \<Longrightarrow>
     \<exists>reports. events = map (reportValue V (dm_id m)) reports \<and>
       map (\<lambda>r. (rp_created r, rp_counts r)) reports = statsCalls ops \<and>
       concat (map rp_inits reports) @ dm_streamInits m' = dm_streamInits m @ recordedInits ops \<and>
       chained (dm_dataSinceTime m) reports (dm_dataSinceTime m')"
proof (induction ops arbitrary: m events)
  case Nil
  then show ?case by (simp add: recordedInits_def statsCalls_def)
next
  case (Cons op ops)
  show ?case
  proof (cases op)
    case (OpStreamInit si)
    let ?m = "RecordStreamInit m (si_timestamp si) (si_failed si) (si_durationMillis si)"
    have "diagRun V ?m ops = (events, m')"
      using Cons.prems OpStreamInit by (auto simp: Let_def split: prod.splits)
    from Cons.IH [OF this] show ?thesis
      by (cases si) (simp add: OpStreamInit RecordStreamInit_def recordedInits_def statsCalls_def)
  next
    case (OpStats now dropped dedup batch)
    let ?m = "m\<lparr>dm_streamInits := [], dm_dataSinceTime := now\<rparr>"
    let ?r = "\<lparr>rp_created = now, rp_since = dm_dataSinceTime m, rp_counts = (dropped, dedup, batch),
      rp_inits = dm_streamInits m\<rparr>"
    obtain es where es: "diagRun V ?m ops = (es, m')" "events = reportValue V (dm_id m) ?r # es"
      using Cons.prems OpStats
      by (auto simp: CreateStatsEventAndReset_def reportValue_def Let_def split: prod.splits)
    from Cons.IH [OF es(1)] obtain reports where
      r: "es = map (reportValue V (dm_id m)) reports"
      "map (\<lambda>r. (rp_created r, rp_counts r)) reports = statsCalls ops"
      "concat (map rp_inits reports) @ dm_streamInits m' = recordedInits ops"
      "chained now reports (dm_dataSinceTime m')"
      by auto
    have "statsCalls (op # ops) = (now, dropped, dedup, batch) # statsCalls ops"
      "recordedInits (op # ops) = recordedInits ops"
      by (simp_all add: OpStats statsCalls_def recordedInits_def)
    then show ?thesis using es r by (intro exI [of _ "?r # reports"]) simp
  qed
qed

text \<open>
  C36: In every run of a new diagnostics manager, each recorded stream connection is reported by
  exactly one statistics event or is still pending, in the order of recording; there is one event
  for each call, with that call's counts; and the reports chain in time: the first counts from the
  start time and each later one from the creation of the one before it.
\<close>

theorem stream_inits_reported_once:
  "\<exists>reports. fst (diagRun V (NewDiagnosticsManager ident cfg sdk start g) ops) =
       map (reportValue V ident) reports \<and>
     map (\<lambda>r. (rp_created r, rp_counts r)) reports = statsCalls ops \<and>
     concat (map rp_inits reports) @
       dm_streamInits (snd (diagRun V (NewDiagnosticsManager ident cfg sdk start g) ops)) =
       recordedInits ops \<and>
     chained start reports (dm_dataSinceTime (snd (diagRun V (NewDiagnosticsManager ident cfg sdk start g) ops)))"
  using diagRun_reports [of V "NewDiagnosticsManager ident cfg sdk start g" ops, OF surjective_pairing]
  by (simp add: NewDiagnosticsManager_def)

text \<open>The identifier carries at most the last six bytes of the SDK key.\<close>

lemma NewDiagnosticID_suffix:
  "\<exists>suf. NewDiagnosticID V uuid key =
       v_object V [(''diagnosticId'', v_string V uuid), (''sdkKeySuffix'', v_string V suf)] \<and>
     suffix suf key \<and> length suf = min 6 (length key)"
  by (auto simp: NewDiagnosticID_def Let_def suffix_drop)

text \<open>A gate that is not closed lets exactly as many events through as were pushed to it.\<close>

fun gateRuns :: "nat \<Rightarrow> 'v DiagnosticsManager \<Rightarrow> bool list" where
  "gateRuns 0 m = []"
| "gateRuns (Suc k) m = (let (ok, m) = CanSendStatsEvent m in ok # gateRuns k m)"

lemma gateRuns_open:
  "dm_periodicEventGate m = Gate n False \<Longrightarrow>
     gateRuns k m = replicate (min k n) True @ replicate (k - n) False"
proof (induction k arbitrary: n m)
  case (Suc k)
  then show ?case by (cases n) (simp_all add: CanSendStatsEvent_def)
qed simp

lemma CanSendStatsEvent_keeps:
  "CanSendStatsEvent m = (ok, m') \<Longrightarrow>
     dm_streamInits m' = dm_streamInits m \<and> dm_dataSinceTime m' = dm_dataSinceTime m \<and>
     dm_id m' = dm_id m"
  by (auto simp: CanSendStatsEvent_def split: gate.splits nat.splits)

end
