(* ===== verification/Util.thy ===== *)
theory Util
  imports Prelude
begin

text \<open>\<open>util.go\<close>: which HTTP statuses are worth a retry, and the log message for an HTTP error.\<close>

definition isHTTPErrorRecoverable :: "int \<Rightarrow> bool" where
  "isHTTPErrorRecoverable statusCode =
     (if statusCode \<ge> 400 \<and> statusCode < 500 then
        (if statusCode = 400 then True
         else if statusCode = 408 then True
         else if statusCode = 429 then True
         else False)
      else True)"

definition httpErrorMessage :: "int \<Rightarrow> string \<Rightarrow> string \<Rightarrow> string" where
  "httpErrorMessage statusCode context recoverableMessage =
     (let statusDesc = (if statusCode = 401 then '' (invalid SDK key)'' else []);
          resultMessage = (if \<not> isHTTPErrorRecoverable statusCode then ''giving up permanently''
                           else recoverableMessage)
      in ''Received HTTP error '' @ itoa statusCode @ statusDesc @ '' for '' @ context @
         '' - '' @ resultMessage)"

lemma recoverable_iff:
  "isHTTPErrorRecoverable st \<longleftrightarrow> \<not> (400 \<le> st \<and> st < 500) \<or> st \<in> {400, 408, 429}"
  by (auto simp: isHTTPErrorRecoverable_def)

end
