(* ===== verification/Event_Sender.thy ===== *)
theory Event_Sender
  imports Util
begin

text \<open>
  \<open>event_sender.go\<close> and the sender types of \<open>interfaces.go\<close>: the delivery of one payload over
  HTTP with one retry. The network is a parameter: the client is a function from the number of
  the attempt and the request to what \<open>client.Do\<close> reports. What the code does beyond returning
  a value (logging, sleeping, posting) is a list of actions in the order it happens. Of the
  standard library the header map with its canonical keys is modelled; the validity of a URL,
  the parsing of the \<open>Date\<close> header (to milliseconds) and the random UUID are parameters.
\<close>

section \<open>net/http headers\<close>

type_synonym httpHeader = "(string, string list) gomap"

definition isUpper :: "char \<Rightarrow> bool" where
  "isUpper c \<longleftrightarrow> 65 \<le> (of_char c :: nat) \<and> (of_char c :: nat) \<le> 90"

definition isLower :: "char \<Rightarrow> bool" where
  "isLower c \<longleftrightarrow> 97 \<le> (of_char c :: nat) \<and> (of_char c :: nat) \<le> 122"

definition isDigit :: "char \<Rightarrow> bool" where
  "isDigit c \<longleftrightarrow> 48 \<le> (of_char c :: nat) \<and> (of_char c :: nat) \<le> 57"

text \<open>The token characters of RFC 7230: \<open>!#$%&'*+-.^_`|~\<close>, digits and letters.\<close>

definition validHeaderFieldByte :: "char \<Rightarrow> bool" where
  "validHeaderFieldByte c \<longleftrightarrow> isUpper c \<or> isLower c \<or> isDigit c \<or>
     (of_char c :: nat) \<in> set [33, 35, 36, 37, 38, 39, 42, 43, 45, 46, 94, 95, 96, 124, 126]"

fun canonLoop :: "bool \<Rightarrow> string \<Rightarrow> string" where
  "canonLoop upper [] = []"
| "canonLoop upper (c # cs) =
     (let c' = (if upper \<and> isLower c then char_of (of_char c - 32 :: nat)
                else if \<not> upper \<and> isUpper c then char_of (of_char c + 32 :: nat)
                else c)
      in c' # canonLoop (c' = CHR ''-'') cs)"

definition canonicalHeaderKey :: "string \<Rightarrow> string" where
  "canonicalHeaderKey s = (if list_all validHeaderFieldByte s then canonLoop True s else s)"

definition header_Set :: "string \<Rightarrow> string \<Rightarrow> httpHeader \<Rightarrow> httpHeader" where
  "header_Set k v h = AList.update (canonicalHeaderKey k) [v] h"

definition header_Add :: "string \<Rightarrow> string \<Rightarrow> httpHeader \<Rightarrow> httpHeader" where
  "header_Add k v h =
     (let ck = canonicalHeaderKey k
      in AList.update ck ((case map_of h ck of None \<Rightarrow> [] | Some vs \<Rightarrow> vs) @ [v]) h)"

text \<open>\<open>for k, vv := range base { ret[k] = vv }\<close>\<close>

definition header_copy :: "httpHeader \<Rightarrow> httpHeader \<Rightarrow> httpHeader" where
  "header_copy base ret = fold (\<lambda>(k, vv). AList.update k vv) base ret"

section \<open>Types\<close>

type_synonym EventDataKind = "string"

definition AnalyticsEventDataKind :: "EventDataKind" where
  "AnalyticsEventDataKind = ''analytics''"

definition DiagnosticEventDataKind :: "EventDataKind" where
  "DiagnosticEventDataKind = ''diagnostic''"

record EventSenderResult =
  sr_Success :: "bool"
  sr_MustShutDown :: "bool"
  sr_TimeFromServer :: "millis"

abbreviation zeroResult :: "EventSenderResult" where
  "zeroResult \<equiv> \<lparr>sr_Success = False, sr_MustShutDown = False, sr_TimeFromServer = 0\<rparr>"

record httpRequest =
  rq_method :: "string"
  rq_uri :: "string"
  rq_header :: "httpHeader"
  rq_body :: "bytes"

text \<open>What \<open>client.Do\<close> gives: an error, or a response with its status and its \<open>Date\<close> header.\<close>

datatype httpOutcome = DoError string | DoResponse int string

type_synonym httpClient = "nat \<Rightarrow> httpRequest \<Rightarrow> httpOutcome"

datatype action =
    Debugf string
  | Warnf string
  | Errorf string
  | Sleep int
  | Post httpRequest

record EventSenderConfiguration =
  sc_Client :: "httpClient option"
  sc_BaseURI :: "string"
  sc_BaseHeaders :: "(unit \<Rightarrow> httpHeader) option"
  sc_SchemaVersion :: "int"
  sc_RetryDelay :: "int"

text \<open>
  The environment: \<open>http.DefaultClient\<close>, the error \<open>http.NewRequest\<close> reports for a URL,
  \<open>http.ParseTime\<close> followed by \<open>ldtime.UnixMillisFromTime\<close>, and the string of the new UUID.
\<close>

record httpEnv =
  he_DefaultClient :: "httpClient"
  he_NewRequestError :: "string \<Rightarrow> string option"
  he_ParseTime :: "string \<Rightarrow> millis option"
  he_UUID :: "string"

definition defaultEventsURI :: "string" where
  "defaultEventsURI = ''https://events.launchdarkly.com''"

definition eventSchemaHeader :: "string" where
  "eventSchemaHeader = ''X-LaunchDarkly-Event-Schema''"

definition payloadIDHeader :: "string" where
  "payloadIDHeader = ''X-LaunchDarkly-Payload-ID''"

definition currentEventSchema :: "string" where
  "currentEventSchema = ''4''"

text \<open>\<open>time.Second\<close>, in nanoseconds.\<close>

definition defaultRetryDelay :: "int" where
  "defaultRetryDelay = 1000000000"

definition NewServerSideEventSender ::
  "EventSenderConfiguration \<Rightarrow> string \<Rightarrow> EventSenderConfiguration" where
  "NewServerSideEventSender config sdkKey =
     config\<lparr>sc_SchemaVersion := 0,
            sc_BaseHeaders := Some (\<lambda>_.
              let base = (case sc_BaseHeaders config of None \<Rightarrow> [] | Some f \<Rightarrow> f ())
              in header_Set ''Authorization'' sdkKey (header_copy base []))\<rparr>"

section \<open>SendEventDataWithRetry\<close>

text \<open>\<open>float64(delay/time.Second)\<close> printed with \<open>%f\<close>: the quotient is an integer.\<close>

definition wholeSeconds :: "int \<Rightarrow> int" where
  "wholeSeconds d = sgn d * (\<bar>d\<bar> div 1000000000)"

text \<open>
  The headers, path and description for a kind of data: \<open>None\<close> is the early return for a kind
  that is neither of the two.
\<close>

definition requestParts ::
  "httpEnv \<Rightarrow> EventSenderConfiguration \<Rightarrow> EventDataKind \<Rightarrow> int \<Rightarrow> (httpHeader \<times> string \<times> string) option"
where
  "requestParts env config kind eventCount =
     (let headers = (case sc_BaseHeaders config of None \<Rightarrow> [] | Some f \<Rightarrow> header_copy (f ()) []);
          headers = header_Set ''Content-Type'' ''application/json'' headers
      in if kind = AnalyticsEventDataKind then
           (let headers = (if sc_SchemaVersion config = 0
                           then header_Add eventSchemaHeader currentEventSchema headers
                           else header_Add eventSchemaHeader (itoa (sc_SchemaVersion config)) headers);
                headers = header_Add payloadIDHeader (he_UUID env) headers
            in Some (headers, ''/bulk'', itoa eventCount @ '' events''))
         else if kind = DiagnosticEventDataKind then
           Some (headers, ''/diagnostic'', ''diagnostic event'')
         else None)"

text \<open>The loop \<open>for attempt := 0; attempt < 2; attempt++\<close>.\<close>

definition retryActions :: "EventSenderConfiguration \<Rightarrow> nat \<Rightarrow> action list" where
  "retryActions config attempt =
     (if attempt > 0 then
        (let delay = (if sc_RetryDelay config = 0 then defaultRetryDelay else sc_RetryDelay config)
         in [Warnf (''Will retry posting events after '' @ itoa (wholeSeconds delay) @
                    ''.000000 second''), Sleep delay])
      else [])"

function postLoop ::
  "httpEnv \<Rightarrow> EventSenderConfiguration \<Rightarrow> string \<Rightarrow> httpHeader \<Rightarrow> bytes \<Rightarrow> nat \<Rightarrow>
   action list \<times> EventSenderResult" where
  "postLoop env config uri headers data attempt =
     (if attempt < 2 then
        (let pre = retryActions config attempt
         in case he_NewRequestError env uri of
              Some reqErr \<Rightarrow>
                (pre @ [Errorf (''Unexpected error while creating event request: '' @ reqErr)],
                 zeroResult)
            | None \<Rightarrow>
                (let req = \<lparr>rq_method = ''POST'', rq_uri = uri, rq_header = headers, rq_body = data\<rparr>;
                     client = (case sc_Client config of None \<Rightarrow> he_DefaultClient env | Some c \<Rightarrow> c)
                 in case client attempt req of
                      DoError respErr \<Rightarrow>
                        (let (acts, r) = postLoop env config uri headers data (Suc attempt)
                         in (pre @ [Post req, Warnf (''Unexpected error while sending events: '' @ respErr)]
                               @ acts, r))
                    | DoResponse status date \<Rightarrow>
                        if status \<ge> 200 \<and> status < 300 then
                          (pre @ [Post req],
                           zeroResult\<lparr>sr_Success := True,
                             sr_TimeFromServer :=
                               (case he_ParseTime env date of None \<Rightarrow> 0 | Some t \<Rightarrow> t)\<rparr>)
                        else if isHTTPErrorRecoverable status then
                          (let maybeRetry = (if attempt = 1 then ''some events were dropped''
                                             else ''will retry'');
                               (acts, r) = postLoop env config uri headers data (Suc attempt)
                           in (pre @ [Post req,
                                      Warnf (httpErrorMessage status ''sending events'' maybeRetry)]
                                 @ acts, r))
                        else
                          (pre @ [Post req, Warnf (httpErrorMessage status ''sending events'' [])],
                           zeroResult\<lparr>sr_MustShutDown := (status \<noteq> 413)\<rparr>)))
      else ([], zeroResult))"
  by pat_completeness auto
termination
  by (relation "measure (\<lambda>(env, config, uri, headers, data, attempt). 2 - attempt)") auto

declare postLoop.simps [simp del]

definition requestURI :: "EventSenderConfiguration \<Rightarrow> string \<Rightarrow> string \<Rightarrow> string" where
  "requestURI config overridePath path =
     (let path = (if overridePath \<noteq> [] then CHR ''/'' # trimLeft overridePath (CHR ''/'') else path);
          baseURI = trimRight (sc_BaseURI config) (CHR ''/'');
          baseURI = (if baseURI = [] then defaultEventsURI else baseURI)
      in baseURI @ path)"

definition SendEventDataWithRetry ::
  "httpEnv \<Rightarrow> EventSenderConfiguration \<Rightarrow> EventDataKind \<Rightarrow> string \<Rightarrow> bytes \<Rightarrow> int \<Rightarrow>
   action list \<times> EventSenderResult" where
  "SendEventDataWithRetry env config kind overridePath data eventCount =
     (case requestParts env config kind eventCount of
        None \<Rightarrow> ([], zeroResult)
      | Some (headers, path, description) \<Rightarrow>
          (let uri = requestURI config overridePath path;
               (acts, r) = postLoop env config uri headers data 0
           in (Debugf (''Sending '' @ description @ '': '' @ data) # acts, r)))"

definition SendEventData ::
  "httpEnv \<Rightarrow> EventSenderConfiguration \<Rightarrow> EventDataKind \<Rightarrow> bytes \<Rightarrow> int \<Rightarrow>
   action list \<times> EventSenderResult" where
  "SendEventData env config kind data eventCount =
     SendEventDataWithRetry env config kind [] data eventCount"

section \<open>The contract of a delivery\<close>

text \<open>
  What one answer of the server means: \<open>None\<close> if it leaves room for a retry, otherwise the final
  result.
\<close>

definition verdict :: "httpEnv \<Rightarrow> httpOutcome \<Rightarrow> EventSenderResult option" where
  "verdict env out =
     (case out of
        DoError _ \<Rightarrow> None
      | DoResponse st date \<Rightarrow>
          if 200 \<le> st \<and> st < 300 then
            Some \<lparr>sr_Success = True, sr_MustShutDown = False,
                  sr_TimeFromServer = (case he_ParseTime env date of None \<Rightarrow> 0 | Some t \<Rightarrow> t)\<rparr>
          else if st \<in> {400, 408, 429} \<or> \<not> (400 \<le> st \<and> st < 500) then None
          else Some \<lparr>sr_Success = False, sr_MustShutDown = (st \<noteq> 413), sr_TimeFromServer = 0\<rparr>)"

definition clientOf :: "httpEnv \<Rightarrow> EventSenderConfiguration \<Rightarrow> httpClient" where
  "clientOf env config = (case sc_Client config of None \<Rightarrow> he_DefaultClient env | Some c \<Rightarrow> c)"

definition posts :: "action list \<Rightarrow> httpRequest list" where
  "posts acts = List.map_filter (\<lambda>a. case a of Post r \<Rightarrow> Some r | _ \<Rightarrow> None) acts"

definition sleeps :: "action list \<Rightarrow> int list" where
  "sleeps acts = List.map_filter (\<lambda>a. case a of Sleep d \<Rightarrow> Some d | _ \<Rightarrow> None) acts"

lemma posts_simps [simp]:
  "posts [] = []"
  "posts (Post r # acts) = r # posts acts"
  "posts (Warnf m # acts) = posts acts"
  "posts (Debugf m # acts) = posts acts"
  "posts (Errorf m # acts) = posts acts"
  "posts (Sleep d # acts) = posts acts"
  by (simp_all add: posts_def List.map_filter_simps)

lemma sleeps_simps [simp]:
  "sleeps [] = []"
  "sleeps (Post r # acts) = sleeps acts"
  "sleeps (Warnf m # acts) = sleeps acts"
  "sleeps (Debugf m # acts) = sleeps acts"
  "sleeps (Errorf m # acts) = sleeps acts"
  "sleeps (Sleep d # acts) = d # sleeps acts"
  by (simp_all add: sleeps_def List.map_filter_simps)

definition theRequest ::
  "EventSenderConfiguration \<Rightarrow> string \<Rightarrow> httpHeader \<Rightarrow> bytes \<Rightarrow> httpRequest" where
  "theRequest config uri headers data =
     \<lparr>rq_method = ''POST'', rq_uri = uri, rq_header = headers, rq_body = data\<rparr>"

definition theDelay :: "EventSenderConfiguration \<Rightarrow> int" where
  "theDelay config = (if sc_RetryDelay config = 0 then defaultRetryDelay else sc_RetryDelay config)"

lemma postLoop_end: "attempt \<ge> 2 \<Longrightarrow> postLoop env config uri headers data attempt = ([], zeroResult)"
  by (simp add: postLoop.simps)

lemma postLoop_step:
  fixes env config uri headers data
  assumes ok: "he_NewRequestError env uri = None" and "attempt < 2"
  defines "req \<equiv> theRequest config uri headers data"
    and "nxt \<equiv> postLoop env config uri headers data (Suc attempt)"
    and "cur \<equiv> postLoop env config uri headers data attempt"
  shows "case verdict env (clientOf env config attempt req) of
      Some r \<Rightarrow> snd cur = r \<and> posts (fst cur) = [req] \<and>
        sleeps (fst cur) = (if attempt = 0 then [] else [theDelay config])
    | None \<Rightarrow> snd cur = snd nxt \<and> posts (fst cur) = req # posts (fst nxt) \<and>
        sleeps (fst cur) = (if attempt = 0 then [] else [theDelay config]) @ sleeps (fst nxt)"
proof -
  note eq = postLoop.simps [of env config uri headers data attempt, folded nxt_def cur_def]
  have cl: "(case sc_Client config of None \<Rightarrow> he_DefaultClient env | Some c \<Rightarrow> c) = clientOf env config"
    by (simp add: clientOf_def)
  have req: "\<lparr>rq_method = ''POST'', rq_uri = uri, rq_header = headers, rq_body = data\<rparr> = req"
    by (simp add: req_def theRequest_def)
  have pre: "posts (retryActions config attempt @ as) = posts as"
    "sleeps (retryActions config attempt @ as) =
       (if attempt = 0 then [] else [theDelay config]) @ sleeps as" for as
    by (simp_all add: retryActions_def theDelay_def Let_def)
  note eq' = eq [unfolded cl req]
  obtain acts r where nxt: "nxt = (acts, r)" by (cases nxt)
  show ?thesis
  proof (cases "clientOf env config attempt req")
    case (DoError e)
    then show ?thesis using ok \<open>attempt < 2\<close> by (simp add: eq' Let_def verdict_def nxt pre)
  next
    case (DoResponse st date)
    then show ?thesis using ok \<open>attempt < 2\<close>
      by (simp add: eq' Let_def verdict_def nxt pre recoverable_iff)
  qed
qed

lemma postLoop_outcome:
  fixes env config uri headers data
  assumes "he_NewRequestError env uri = None"
  defines "req \<equiv> theRequest config uri headers data"
  defines "o0 \<equiv> verdict env (clientOf env config 0 req)"
    and "o1 \<equiv> verdict env (clientOf env config 1 req)"
    and "run \<equiv> postLoop env config uri headers data 0"
  shows "snd run = (case o0 of Some r \<Rightarrow> r | None \<Rightarrow> (case o1 of Some r \<Rightarrow> r | None \<Rightarrow> zeroResult))"
    and "posts (fst run) = (if o0 = None then [req, req] else [req])"
    and "sleeps (fst run) = (if o0 = None then [theDelay config] else [])"
  using postLoop_step [OF assms(1), of 0 config headers data]
    postLoop_step [OF assms(1), of 1 config headers data]
    postLoop_end [of 2 env config uri headers data]
  unfolding req_def [symmetric] o0_def [symmetric] o1_def [symmetric] run_def [symmetric]
  by (auto simp: numeral_2_eq_2 split: option.splits)

section \<open>Headers and URI\<close>

lemma char_upper_lower:
  "isLower c \<Longrightarrow> \<not> isLower (char_of (of_char c - 32 :: nat)) \<and> isUpper (char_of (of_char c - 32 :: nat))"
  "isUpper c \<Longrightarrow> \<not> isUpper (char_of (of_char c + 32 :: nat)) \<and> isLower (char_of (of_char c + 32 :: nat))"
  by (auto simp: isLower_def isUpper_def)

lemma canonLoop_idem: "canonLoop u (canonLoop u s) = canonLoop u s"
proof (induction s arbitrary: u)
  case (Cons c cs)
  then show ?case
    using char_upper_lower [of c] by (simp add: Let_def)
qed simp

lemma canonLoop_valid:
  "list_all validHeaderFieldByte s \<Longrightarrow> list_all validHeaderFieldByte (canonLoop u s)"
proof (induction s arbitrary: u)
  case (Cons c cs)
  then show ?case
    using char_upper_lower [of c] by (auto simp: Let_def validHeaderFieldByte_def)
qed simp

text \<open>The canonical form of a header key is a fixed point.\<close>

lemma canonicalHeaderKey_idem [simp]: "canonicalHeaderKey (canonicalHeaderKey s) = canonicalHeaderKey s"
  by (simp add: canonicalHeaderKey_def canonLoop_valid canonLoop_idem)

lemma canonical_keys [simp]:
  "canonicalHeaderKey ''Content-Type'' = ''Content-Type''"
  "canonicalHeaderKey ''Authorization'' = ''Authorization''"
  "canonicalHeaderKey eventSchemaHeader = ''X-Launchdarkly-Event-Schema''"
  "canonicalHeaderKey payloadIDHeader = ''X-Launchdarkly-Payload-Id''"
  by code_simp+

lemma map_of_header_copy:
  "gomap_wf base \<Longrightarrow> map_of (header_copy base ret) = map_of ret ++ map_of base"
proof (induction base arbitrary: ret)
  case (Cons kv base)
  obtain k v where kv: "kv = (k, v)" by fastforce
  have "k \<notin> dom (map_of base)"
    using Cons.prems kv by (simp add: gomap_wf_def dom_map_of_conv_image_fst)
  then show ?case
    using Cons by (auto simp: kv header_copy_def gomap_wf_def fun_eq_iff map_add_def
        split: option.splits)
qed (simp add: header_copy_def)

definition baseHeaders :: "EventSenderConfiguration \<Rightarrow> httpHeader" where
  "baseHeaders config = (case sc_BaseHeaders config of None \<Rightarrow> [] | Some f \<Rightarrow> f ())"

definition headerValues :: "httpHeader \<Rightarrow> string \<Rightarrow> string list" where
  "headerValues h k = (case map_of h k of None \<Rightarrow> [] | Some vs \<Rightarrow> vs)"

lemma map_of_start_headers:
  assumes "gomap_wf (baseHeaders config)"
  shows "map_of (case sc_BaseHeaders config of None \<Rightarrow> [] | Some f \<Rightarrow> header_copy (f ()) []) =
    map_of (baseHeaders config)"
  using assms by (cases "sc_BaseHeaders config") (simp_all add: baseHeaders_def map_of_header_copy)

lemma headerValues_Set [simp]:
  "headerValues (header_Set k v h) k' = (if k' = canonicalHeaderKey k then [v] else headerValues h k')"
  by (simp add: headerValues_def header_Set_def)

lemma headerValues_Add [simp]:
  "headerValues (header_Add k v h) k' =
     (if k' = canonicalHeaderKey k then headerValues h k' @ [v] else headerValues h k')"
  by (simp add: headerValues_def header_Add_def Let_def)

text \<open>The headers that \<open>requestParts\<close> builds from those of the configuration.\<close>

lemma requestParts_headers:
  assumes wf: "gomap_wf (baseHeaders config)"
    and parts: "requestParts env config kind n = Some (hs, path, descr)"
  defines "base \<equiv> baseHeaders config"
  shows "kind \<in> {AnalyticsEventDataKind, DiagnosticEventDataKind} \<and>
    headerValues hs ''Content-Type'' = [''application/json''] \<and>
    (kind = AnalyticsEventDataKind \<longrightarrow> path = ''/bulk'' \<and>
       headerValues hs ''X-Launchdarkly-Event-Schema'' =
         headerValues base ''X-Launchdarkly-Event-Schema'' @
         [if sc_SchemaVersion config = 0 then ''4'' else itoa (sc_SchemaVersion config)] \<and>
       headerValues hs ''X-Launchdarkly-Payload-Id'' =
         headerValues base ''X-Launchdarkly-Payload-Id'' @ [he_UUID env]) \<and>
    (kind = DiagnosticEventDataKind \<longrightarrow> path = ''/diagnostic'' \<and>
       headerValues hs ''X-Launchdarkly-Event-Schema'' =
         headerValues base ''X-Launchdarkly-Event-Schema'' \<and>
       headerValues hs ''X-Launchdarkly-Payload-Id'' =
         headerValues base ''X-Launchdarkly-Payload-Id'') \<and>
    (\<forall>k. k \<notin> {''Content-Type'', ''X-Launchdarkly-Event-Schema'', ''X-Launchdarkly-Payload-Id''} \<longrightarrow>
       headerValues hs k = headerValues base k)"
proof -
  define h0 where "h0 = (case sc_BaseHeaders config of None \<Rightarrow> [] | Some f \<Rightarrow> header_copy (f ()) [])"
  have h0: "headerValues h0 = headerValues base"
    unfolding headerValues_def h0_def base_def map_of_start_headers [OF wf] ..
  have kinds: "AnalyticsEventDataKind \<noteq> DiagnosticEventDataKind"
    by (simp add: AnalyticsEventDataKind_def DiagnosticEventDataKind_def)
  consider "kind = AnalyticsEventDataKind" | "kind = DiagnosticEventDataKind"
    using parts by (auto simp: requestParts_def Let_def split: if_splits)
  then show ?thesis
  proof cases
    case 1
    then have "path = ''/bulk'' \<and> hs = header_Add payloadIDHeader (he_UUID env)
        (header_Add eventSchemaHeader
          (if sc_SchemaVersion config = 0 then currentEventSchema else itoa (sc_SchemaVersion config))
          (header_Set ''Content-Type'' ''application/json'' h0))"
      using parts by (auto simp: requestParts_def Let_def h0_def)
    then show ?thesis using 1 kinds by (simp add: h0 currentEventSchema_def)
  next
    case 2
    then have "path = ''/diagnostic'' \<and> hs = header_Set ''Content-Type'' ''application/json'' h0"
      using parts kinds by (auto simp: requestParts_def Let_def h0_def)
    then show ?thesis using 2 kinds by (simp add: h0)
  qed
qed

definition sampleEnv :: "httpOutcome list \<Rightarrow> httpEnv" where
  "sampleEnv outs =
     \<lparr>he_DefaultClient = (\<lambda>n req. if n < length outs then outs ! n else DoError ''eof''),
      he_NewRequestError = (\<lambda>uri. None),
      he_ParseTime = (\<lambda>s. if s = ''now'' then Some 1000 else None), he_UUID = ''u-1''\<rparr>"

definition sampleSender :: "EventSenderConfiguration" where
  "sampleSender =
     \<lparr>sc_Client = None, sc_BaseURI = ''http://h/'', sc_BaseHeaders = Some (\<lambda>_. [(''User-Agent'', [''go''])]),
      sc_SchemaVersion = 0, sc_RetryDelay = 0\<rparr>"

lemma itoa_3: "itoa 3 = ''3''"
  by code_simp

lemma requestParts_sample:
  "requestParts (sampleEnv outs) sampleSender AnalyticsEventDataKind 3 =
     Some ([(''User-Agent'', [''go'']), (''Content-Type'', [''application/json'']),
            (''X-Launchdarkly-Event-Schema'', [''4'']), (''X-Launchdarkly-Payload-Id'', [''u-1''])],
           ''/bulk'', ''3 events'')"
  by (simp add: requestParts_def Let_def sampleEnv_def sampleSender_def header_copy_def
      header_Set_def header_Add_def currentEventSchema_def itoa_3)

text \<open>
  The request URI is the configured base without its trailing slashes (the default service if
  nothing is left), one slash, and the override path without its leading slashes, or the standard
  path when there is no override: the joint never has two slashes.
\<close>

theorem request_uri:
  assumes "path = ''/bulk'' \<or> path = ''/diagnostic''"
  shows "\<exists>base rest. requestURI config overridePath path = base @ ''/'' @ rest \<and>
    base \<noteq> [] \<and> last base \<noteq> CHR ''/'' \<and> (rest \<noteq> [] \<longrightarrow> hd rest \<noteq> CHR ''/'') \<and>
    base = (if trimRight (sc_BaseURI config) (CHR ''/'') = [] then defaultEventsURI
            else trimRight (sc_BaseURI config) (CHR ''/'')) \<and>
    (overridePath = [] \<longrightarrow> ''/'' @ rest = path) \<and>
    (overridePath \<noteq> [] \<longrightarrow> rest = trimLeft overridePath (CHR ''/''))"
proof -
  define base where "base = (if trimRight (sc_BaseURI config) (CHR ''/'') = [] then defaultEventsURI
            else trimRight (sc_BaseURI config) (CHR ''/''))"
  define rest where "rest = (if overridePath = [] then tl path else trimLeft overridePath (CHR ''/''))"
  have "requestURI config overridePath path = base @ ''/'' @ rest"
    using assms by (auto simp: requestURI_def base_def rest_def Let_def)
  moreover have "base \<noteq> [] \<and> last base \<noteq> CHR ''/''"
    by (auto simp: base_def trimRight_last defaultEventsURI_def)
  moreover have "rest \<noteq> [] \<longrightarrow> hd rest \<noteq> CHR ''/''"
    using assms by (auto simp: rest_def trimLeft_hd)
  ultimately show ?thesis using assms by (intro exI [of _ base] exI [of _ rest])
    (auto simp: base_def rest_def)
qed

theorem request_uri_witness:
  "requestURI sampleSender ''//x'' ''/bulk'' = ''http://h/x''"
  using request_uri [of "''/bulk''" sampleSender "''//x''"]
  by (simp add: trimLeft_def trimRight_def sampleSender_def)

section \<open>Delivery\<close>

lemma SendEventDataWithRetry_eq:
  assumes "requestParts env config kind n = Some (hs, path, descr)"
  shows "snd (SendEventDataWithRetry env config kind op data n) =
      snd (postLoop env config (requestURI config op path) hs data 0)"
    and "posts (fst (SendEventDataWithRetry env config kind op data n)) =
      posts (fst (postLoop env config (requestURI config op path) hs data 0))"
    and "sleeps (fst (SendEventDataWithRetry env config kind op data n)) =
      sleeps (fst (postLoop env config (requestURI config op path) hs data 0))"
  using assms by (simp_all add: SendEventDataWithRetry_def split: prod.splits)

lemma postLoop_posts: "set (posts (fst (postLoop env config uri hs data 0))) \<subseteq> {theRequest config uri hs data}"
proof (cases "he_NewRequestError env uri")
  case None
  from postLoop_outcome(2) [OF None, of config hs data] show ?thesis by simp
next
  case (Some e)
  then show ?thesis by (simp add: postLoop.simps [of env config uri hs data 0] retryActions_def Let_def)
qed

text \<open>
  C37: Every request that a delivery posts, the retry included, is a POST of the data to the URI of
  its kind. Its content type is JSON, in place of any other; for analytics data it adds the schema
  version (4, unless the configuration names another) and the payload id after the values the base
  headers have under those keys; for diagnostic data it adds neither; every other header is as in
  the base headers. Nothing is posted for data of another kind. The base headers are a map.
\<close>

theorem request_headers:
  fixes data :: bytes
  assumes wf: "gomap_wf (baseHeaders config)"
    and req: "r \<in> set (posts (fst (SendEventDataWithRetry env config kind overridePath data n)))"
  defines "base \<equiv> baseHeaders config"
  shows "rq_method r = ''POST'' \<and> rq_body r = data \<and>
    kind \<in> {AnalyticsEventDataKind, DiagnosticEventDataKind} \<and>
    rq_uri r = requestURI config overridePath
      (if kind = AnalyticsEventDataKind then ''/bulk'' else ''/diagnostic'') \<and>
    headerValues (rq_header r) ''Content-Type'' = [''application/json''] \<and>
    headerValues (rq_header r) ''X-Launchdarkly-Event-Schema'' =
      headerValues base ''X-Launchdarkly-Event-Schema'' @
      (if kind = AnalyticsEventDataKind
       then [if sc_SchemaVersion config = 0 then ''4'' else itoa (sc_SchemaVersion config)] else []) \<and>
    headerValues (rq_header r) ''X-Launchdarkly-Payload-Id'' =
      headerValues base ''X-Launchdarkly-Payload-Id'' @
      (if kind = AnalyticsEventDataKind then [he_UUID env] else []) \<and>
    (\<forall>k. k \<notin> {''Content-Type'', ''X-Launchdarkly-Event-Schema'', ''X-Launchdarkly-Payload-Id''} \<longrightarrow>
       headerValues (rq_header r) k = headerValues base k)"
proof -
  have "requestParts env config kind n \<noteq> None"
    using req by (cases "requestParts env config kind n") (auto simp: SendEventDataWithRetry_def)
  then obtain hs path descr where parts: "requestParts env config kind n = Some (hs, path, descr)"
    by auto
  have "r = theRequest config (requestURI config overridePath path) hs data"
    using req postLoop_posts unfolding SendEventDataWithRetry_eq(2) [OF parts] by blast
  with requestParts_headers [OF wf parts] show ?thesis
    by (auto simp: theRequest_def base_def AnalyticsEventDataKind_def DiagnosticEventDataKind_def)
qed

theorem request_headers_witness:
  "\<exists>r. posts (fst (SendEventDataWithRetry (sampleEnv [DoResponse 503 [], DoResponse 202 ''now''])
      sampleSender AnalyticsEventDataKind [] ''[]'' 3)) = [r, r] \<and>
    rq_uri r = ''http://h/bulk'' \<and> headerValues (rq_header r) ''X-Launchdarkly-Event-Schema'' = [''4''] \<and>
    headerValues (rq_header r) ''X-Launchdarkly-Payload-Id'' = [''u-1''] \<and>
    headerValues (rq_header r) ''User-Agent'' = [''go'']"
proof -
  let ?env = "sampleEnv [DoResponse 503 [], DoResponse 202 ''now'']"
  let ?out = "SendEventDataWithRetry ?env sampleSender AnalyticsEventDataKind [] ''[]'' 3"
  have "he_NewRequestError ?env uri = None" for uri by (simp add: sampleEnv_def)
  from postLoop_outcome(2) [OF this]
  obtain r where r: "posts (fst ?out) = [r, r]"
    unfolding SendEventDataWithRetry_eq(2) [OF requestParts_sample]
    by (simp add: sampleEnv_def sampleSender_def clientOf_def verdict_def)
  have "gomap_wf (baseHeaders sampleSender)" by (simp add: baseHeaders_def sampleSender_def gomap_wf_def)
  from request_headers [OF this, of r ?env AnalyticsEventDataKind "[]" "''[]''" 3] r
  have "rq_uri r = requestURI sampleSender [] ''/bulk'' \<and>
      headerValues (rq_header r) ''X-Launchdarkly-Event-Schema'' = [''4''] \<and>
      headerValues (rq_header r) ''X-Launchdarkly-Payload-Id'' = [''u-1''] \<and>
      headerValues (rq_header r) ''User-Agent'' = [''go'']"
    by (auto simp: baseHeaders_def sampleSender_def headerValues_def sampleEnv_def)
  moreover have "requestURI sampleSender [] ''/bulk'' = ''http://h/bulk''"
    by (simp add: requestURI_def sampleSender_def trimRight_def)
  ultimately show ?thesis using r by auto
qed

text \<open>
  C8: A delivery posts one request; if the answer leaves room for a retry (a transport error, or
  a status that is neither 2xx nor an unrecoverable 4xx) it sleeps once for the configured delay
  (one second if it is zero) and posts the same request, payload id included, exactly once more.
  The result is the verdict on the first final answer, and the zero result when neither answer is
  final.
\<close>

theorem delivery_outcome:
  fixes data :: bytes
  assumes parts: "requestParts env config kind n = Some (hs, path, descr)"
    and url: "he_NewRequestError env (requestURI config overridePath path) = None"
  defines "req \<equiv> theRequest config (requestURI config overridePath path) hs data"
    and "out \<equiv> SendEventDataWithRetry env config kind overridePath data n"
  defines "v0 \<equiv> verdict env (clientOf env config 0 req)"
    and "v1 \<equiv> verdict env (clientOf env config 1 req)"
  shows "snd out = (case v0 of Some r \<Rightarrow> r
                     | None \<Rightarrow> (case v1 of Some r \<Rightarrow> r | None \<Rightarrow> zeroResult)) \<and>
    posts (fst out) = (if v0 = None then [req, req] else [req]) \<and>
    sleeps (fst out) = (if v0 = None then [theDelay config] else [])"
  using postLoop_outcome [OF url, of config hs data]
  unfolding v0_def v1_def out_def req_def SendEventDataWithRetry_eq [OF parts] by simp

theorem delivery_outcome_witness:
  "snd (SendEventDataWithRetry (sampleEnv [DoResponse 503 [], DoResponse 202 ''now'']) sampleSender
      AnalyticsEventDataKind [] ''[]'' 3) =
     \<lparr>sr_Success = True, sr_MustShutDown = False, sr_TimeFromServer = 1000\<rparr> \<and>
   sleeps (fst (SendEventDataWithRetry (sampleEnv [DoResponse 503 [], DoResponse 202 ''now''])
      sampleSender AnalyticsEventDataKind [] ''[]'' 3)) = [1000000000]"
  using delivery_outcome [OF requestParts_sample [of "[DoResponse 503 [], DoResponse 202 ''now'']"],
      of "[]" "''[]''"]
  by (simp add: sampleEnv_def sampleSender_def clientOf_def verdict_def theDelay_def
      defaultRetryDelay_def)

text \<open>
  C9: The sender tells the processor to shut down exactly when the final answer of the server is a
  4xx status other than 400, 408, 413 and 429: the answer to the first request, or to the second
  when the first leaves room for a retry.
\<close>

theorem shutdown_iff:
  fixes data :: bytes
  assumes parts: "requestParts env config kind n = Some (hs, path, descr)"
    and url: "he_NewRequestError env (requestURI config overridePath path) = None"
  defines "req \<equiv> theRequest config (requestURI config overridePath path) hs data"
  defines "fatal \<equiv> \<lambda>out. \<exists>st date. out = DoResponse st date \<and> 400 \<le> st \<and> st < 500 \<and>
      st \<notin> {400, 408, 413, 429}"
    and "retry \<equiv> \<lambda>out. (\<exists>e. out = DoError e) \<or>
      (\<exists>st date. out = DoResponse st date \<and> \<not> (200 \<le> st \<and> st < 300) \<and>
         isHTTPErrorRecoverable st)"
  shows "sr_MustShutDown (snd (SendEventDataWithRetry env config kind overridePath data n)) \<longleftrightarrow>
    fatal (clientOf env config 0 req) \<or>
    retry (clientOf env config 0 req) \<and> fatal (clientOf env config 1 req)"
proof -
  have r: "retry out \<longleftrightarrow> verdict env out = None" for out
    by (cases out) (auto simp: retry_def verdict_def recoverable_iff)
  have f: "fatal out \<longleftrightarrow> (\<exists>r. verdict env out = Some r \<and> sr_MustShutDown r)" for out
    by (cases out) (auto simp: fatal_def verdict_def)
  show ?thesis
    unfolding SendEventDataWithRetry_eq(1) [OF parts] postLoop_outcome(1) [OF url] r f
      req_def [symmetric]
    by (auto split: option.split)
qed

theorem shutdown_iff_witness:
  "sr_MustShutDown (snd (SendEventDataWithRetry (sampleEnv [DoResponse 401 []]) sampleSender
      AnalyticsEventDataKind [] ''[]'' 3)) \<and>
   \<not> sr_MustShutDown (snd (SendEventDataWithRetry (sampleEnv [DoResponse 413 []]) sampleSender
      AnalyticsEventDataKind [] ''[]'' 3))"
  using shutdown_iff [OF requestParts_sample [of "[DoResponse 401 []]"], of "[]" "''[]''"]
    shutdown_iff [OF requestParts_sample [of "[DoResponse 413 []]"], of "[]" "''[]''"]
  by (simp add: sampleEnv_def sampleSender_def clientOf_def)

text \<open>A kind of data that is neither of the two is not sent at all.\<close>

lemma unknown_kind:
  "kind \<noteq> AnalyticsEventDataKind \<Longrightarrow> kind \<noteq> DiagnosticEventDataKind \<Longrightarrow>
     SendEventDataWithRetry env config kind op data n = ([], zeroResult)"
  by (simp add: SendEventDataWithRetry_def requestParts_def Let_def)

section \<open>The interface the event processor relies on\<close>

text \<open>
  \<open>EventSender\<close>: a delivery that succeeded never asks for a shutdown, and only a delivery that
  succeeded reports a server time.
\<close>

locale event_sender =
  fixes send :: "EventDataKind \<Rightarrow> bytes \<Rightarrow> int \<Rightarrow> EventSenderResult"
  assumes success_not_fatal: "sr_Success (send kind data n) \<Longrightarrow> \<not> sr_MustShutDown (send kind data n)"
    and time_only_on_success: "sr_TimeFromServer (send kind data n) \<noteq> 0 \<Longrightarrow> sr_Success (send kind data n)"
begin

lemma fatal_has_no_time: "sr_MustShutDown (send kind data n) \<Longrightarrow> sr_TimeFromServer (send kind data n) = 0"
  using success_not_fatal time_only_on_success by blast

end

lemma verdict_contract:
  "verdict env out = Some r \<Longrightarrow>
     (sr_Success r \<longrightarrow> \<not> sr_MustShutDown r) \<and> (sr_TimeFromServer r \<noteq> 0 \<longrightarrow> sr_Success r)"
  by (auto simp: verdict_def split: httpOutcome.splits if_splits)

lemma postLoop_contract:
  "sr_Success r \<longrightarrow> \<not> sr_MustShutDown r" "sr_TimeFromServer r \<noteq> 0 \<longrightarrow> sr_Success r"
  if "r = snd (postLoop env config uri hs data 0)"
proof -
  have "(sr_Success r \<longrightarrow> \<not> sr_MustShutDown r) \<and> (sr_TimeFromServer r \<noteq> 0 \<longrightarrow> sr_Success r)"
  proof (cases "he_NewRequestError env uri")
    case None
    then show ?thesis
      using postLoop_outcome(1) [OF None, of config hs data] that verdict_contract
      by (auto split: option.splits)
  next
    case (Some e)
    then show ?thesis using that by (simp add: postLoop.simps Let_def)
  qed
  then show "sr_Success r \<longrightarrow> \<not> sr_MustShutDown r" "sr_TimeFromServer r \<noteq> 0 \<longrightarrow> sr_Success r"
    by simp_all
qed

interpretation default_sender: event_sender "\<lambda>kind data n. snd (SendEventData env config kind data n)"
  for env config
proof unfold_locales
  fix kind data n
  let ?r = "snd (SendEventData env config kind data n)"
  have "(sr_Success ?r \<longrightarrow> \<not> sr_MustShutDown ?r) \<and> (sr_TimeFromServer ?r \<noteq> 0 \<longrightarrow> sr_Success ?r)"
  proof (cases "requestParts env config kind n")
    case None
    then show ?thesis by (simp add: SendEventData_def SendEventDataWithRetry_def)
  next
    case (Some p)
    obtain hs path descr where p: "p = (hs, path, descr)" by (cases p)
    have "?r = snd (postLoop env config (requestURI config [] path) hs data 0)"
      unfolding SendEventData_def
      by (rule SendEventDataWithRetry_eq(1)) (rule Some [unfolded p])
    then show ?thesis using postLoop_contract [of ?r] by simp
  qed
  then show "sr_Success ?r \<Longrightarrow> \<not> sr_MustShutDown ?r" "sr_TimeFromServer ?r \<noteq> 0 \<Longrightarrow> sr_Success ?r"
    by simp_all
qed

end
