(* ===== verification/Go_Sync.thy ===== *)
theory Go_Sync
  imports Prelude
begin

text \<open>
  The synchronisation primitives the event processor uses: buffered channels, and the counter of a
  \<open>sync.WaitGroup\<close>. A channel is its buffer, its capacity and whether it is closed. Each operation
  is what the Go specification says of it when it can proceed at once, and says when it cannot: a
  \<open>select\<close> with a \<open>default\<close> case then takes that case, and a goroutine without one waits. A panic
  is a value.
\<close>

section \<open>Channels\<close>

record 'x channel =
  ch_buf :: "'x list"
  ch_cap :: "nat"
  ch_closed :: "bool"

definition makeChan :: "nat \<Rightarrow> 'x channel" where
  "makeChan n = \<lparr>ch_buf = [], ch_cap = n, ch_closed = False\<rparr>"

text \<open>A send on a closed channel panics; on a full one it cannot proceed (\<open>None\<close>).\<close>

definition chanSend :: "'x channel \<Rightarrow> 'x \<Rightarrow> 'x channel option go" where
  "chanSend ch x =
     (if ch_closed ch then Inl SendOnClosedChannel
      else if length (ch_buf ch) < ch_cap ch then Inr (Some (ch\<lparr>ch_buf := ch_buf ch @ [x]\<rparr>))
      else Inr None)"

text \<open>
  A receive takes the oldest item; from a closed channel that is empty it returns at once with
  \<open>more = false\<close>; from an empty open channel it cannot proceed.
\<close>

datatype 'x received = Received 'x "'x channel" | NoMore | Blocked

definition chanRecv :: "'x channel \<Rightarrow> 'x received" where
  "chanRecv ch =
     (case ch_buf ch of
        x # xs \<Rightarrow> Received x (ch\<lparr>ch_buf := xs\<rparr>)
      | [] \<Rightarrow> if ch_closed ch then NoMore else Blocked)"

definition chanClose :: "'x channel \<Rightarrow> 'x channel" where
  "chanClose ch = ch\<lparr>ch_closed := True\<rparr>"

definition chan_ok :: "'x channel \<Rightarrow> bool" where
  "chan_ok ch \<longleftrightarrow> length (ch_buf ch) \<le> ch_cap ch"

lemma makeChan_simps [simp]:
  "ch_buf (makeChan n) = []" "ch_cap (makeChan n) = n" "\<not> ch_closed (makeChan n)"
  by (simp_all add: makeChan_def)

lemma chanClose_simps [simp]:
  "ch_buf (chanClose ch) = ch_buf ch" "ch_cap (chanClose ch) = ch_cap ch" "ch_closed (chanClose ch)"
  by (simp_all add: chanClose_def)

lemma chanSend_Some:
  "chanSend ch x = Inr (Some ch') \<longleftrightarrow>
     \<not> ch_closed ch \<and> length (ch_buf ch) < ch_cap ch \<and> ch' = ch\<lparr>ch_buf := ch_buf ch @ [x]\<rparr>"
  by (auto simp: chanSend_def)

lemma chanSend_None:
  "chanSend ch x = Inr None \<longleftrightarrow> \<not> ch_closed ch \<and> ch_cap ch \<le> length (ch_buf ch)"
  by (auto simp: chanSend_def)

lemma chanSend_panic: "chanSend ch x = Inl p \<longleftrightarrow> ch_closed ch \<and> p = SendOnClosedChannel"
  by (auto simp: chanSend_def)

lemma chanRecv_Received:
  "chanRecv ch = Received x ch' \<longleftrightarrow> (\<exists>xs. ch_buf ch = x # xs \<and> ch' = ch\<lparr>ch_buf := xs\<rparr>)"
  by (auto simp: chanRecv_def split: list.splits if_splits)

lemma chanRecv_NoMore: "chanRecv ch = NoMore \<longleftrightarrow> ch_buf ch = [] \<and> ch_closed ch"
  by (auto simp: chanRecv_def split: list.splits)

section \<open>Wait groups\<close>

definition wg_Add :: "int \<Rightarrow> int \<Rightarrow> int go" where
  "wg_Add wg n = (if wg + n < 0 then Inl NegativeWaitGroup else Inr (wg + n))"

definition wg_Done :: "int \<Rightarrow> int go" where
  "wg_Done wg = wg_Add wg (- 1)"

lemma wg_Add_1 [simp]: "0 \<le> wg \<Longrightarrow> wg_Add wg 1 = Inr (wg + 1)"
  by (simp add: wg_Add_def)

lemma wg_Done_pos [simp]: "0 < wg \<Longrightarrow> wg_Done wg = Inr (wg - 1)"
  by (simp add: wg_Done_def wg_Add_def)

section \<open>The interface: first in, first out\<close>

text \<open>
  A queue with a capacity keeps what was put into it, in order. What a run of successful
  operations took out, followed by what is still inside, is what was inside followed by what was
  put in.
\<close>

locale fifo =
  fixes put :: "'q \<Rightarrow> 'x \<Rightarrow> 'q option go"
    and get :: "'q \<Rightarrow> ('x \<times> 'q) option"
    and items :: "'q \<Rightarrow> 'x list"
    and room :: "'q \<Rightarrow> nat"
  assumes put_items: "put q x = Inr (Some q') \<Longrightarrow> items q' = items q @ [x] \<and> room q' = room q"
    and put_room: "put q x = Inr (Some q') \<Longrightarrow> length (items q) < room q"
    and get_items: "get q = Some (x, q') \<Longrightarrow> items q = x # items q' \<and> room q' = room q"
begin

text \<open>An operation is a successful send (\<open>Inl\<close>) or receive (\<open>Inr\<close>) of an item.\<close>

inductive moves :: "'q \<Rightarrow> ('x + 'x) list \<Rightarrow> 'q \<Rightarrow> bool" where
  moves_Nil: "moves q [] q"
| moves_put: "moves q ops q1 \<Longrightarrow> put q1 x = Inr (Some q2) \<Longrightarrow> moves q (ops @ [Inl x]) q2"
| moves_get: "moves q ops q1 \<Longrightarrow> get q1 = Some (x, q2) \<Longrightarrow> moves q (ops @ [Inr x]) q2"

definition puts :: "('x + 'x) list \<Rightarrow> 'x list" where
  "puts ops = concat (map (\<lambda>op. case op of Inl x \<Rightarrow> [x] | Inr _ \<Rightarrow> []) ops)"

definition gets :: "('x + 'x) list \<Rightarrow> 'x list" where
  "gets ops = concat (map (\<lambda>op. case op of Inr x \<Rightarrow> [x] | Inl _ \<Rightarrow> []) ops)"

lemma moves_conserve: "moves q ops q' \<Longrightarrow> items q @ puts ops = gets ops @ items q'"
  by (induction rule: moves.induct) (auto simp: puts_def gets_def dest: put_items get_items)

lemma moves_bounded:
  "moves q ops q' \<Longrightarrow> length (items q) \<le> room q \<Longrightarrow> length (items q') \<le> room q' \<and> room q' = room q"
proof (induction rule: moves.induct)
  case (moves_put q ops q1 x q2)
  then show ?case using put_items put_room by fastforce
next
  case (moves_get q ops q1 x q2)
  then show ?case using get_items by fastforce
qed simp

end

definition recvItem :: "'x channel \<Rightarrow> ('x \<times> 'x channel) option" where
  "recvItem ch = (case chanRecv ch of Received x ch' \<Rightarrow> Some (x, ch') | _ \<Rightarrow> None)"

interpretation chan: fifo chanSend recvItem ch_buf ch_cap
  by unfold_locales
    (auto simp: chanSend_Some recvItem_def chanRecv_Received split: received.splits)

end
