(* ===== verification/Event_Dispatcher.thy ===== *)
theory Event_Dispatcher
  imports Config Outbox Lru_Cache Events_Output Diagnostic_Events Event_Sender Go_Sync
begin

text \<open>
  The dispatcher of \<open>event_processor.go\<close>: the goroutine that owns the outbox, the set of seen
  context keys and the counters, and handles one message, result or tick at a time. Each handler is
  a function of the dispatcher's state, in the \<open>go\<close> monad because it can panic. \<open>flushCh\<close> and
  \<open>senderResultCh\<close> are its channels and \<open>workersGroup\<close> its wait group; the workers at their other
  ends are in \<open>Event_Processor\<close>. What the clock reads is an argument, and a draw from the sampler
  returns the sampler's next state.
\<close>

section \<open>The state\<close>

record ('a, 'c, 'v, 'r, 's) eventDispatcher =
  di_config :: "'a EventsConfiguration"
  di_outbox :: "('c, 'v, 'r) eventsOutbox"
  di_flushCh :: "('c, 'v, 'r) flushPayload channel"
  di_senderResultCh :: "EventSenderResult channel"
  di_workersGroup :: "int"
  di_userKeys :: "string lruCache"
  di_lastKnownPastTime :: "millis"
  di_deduplicatedContexts :: "gocount"
  di_eventsInLastBatch :: "int"
  di_disabled :: "bool"
  di_sampler :: "'s"

definition maxFlushWorkers :: "nat" where "maxFlushWorkers = 5"

section \<open>Handling an event\<close>

definition shouldDebugEvent ::
  "millis \<Rightarrow> ('a, 'c, 'v, 'r, 's) eventDispatcher \<Rightarrow> ('c, 'v, 'r) EvaluationData \<Rightarrow> bool" where
  "shouldDebugEvent now ed evt =
     (if ed_DebugEventsUntilDate evt = 0 then False
      else ed_DebugEventsUntilDate evt > di_lastKnownPastTime ed \<and> ed_DebugEventsUntilDate evt > now)"

definition shouldSample ::
  "'s sampler \<Rightarrow> ('a, 'c, 'v, 'r, 's) eventDispatcher \<Rightarrow> optInt \<Rightarrow>
   bool \<times> ('a, 'c, 'v, 'r, 's) eventDispatcher" where
  "shouldSample smp ed ratio =
     (if cg_forceSampling (di_config ed) then (True, ed)
      else let (b, s) = smp (di_sampler ed) (case ratio of None \<Rightarrow> 1 | Some n \<Rightarrow> n)
           in (b, ed\<lparr>di_sampler := s\<rparr>))"

definition addToOutbox ::
  "('a, 'c, 'v, 'r, 's) eventDispatcher \<Rightarrow> ('c, 'v, 'r) anyEvent \<Rightarrow>
   ('a, 'c, 'v, 'r, 's) eventDispatcher" where
  "addToOutbox ed evt = ed\<lparr>di_outbox := addEvent (di_outbox ed) evt\<rparr>"

text \<open>\<open>if ed.shouldSample(ratio) { ed.outbox.addEvent(evt) }\<close>\<close>

definition addIfSampled ::
  "'s sampler \<Rightarrow> ('a, 'c, 'v, 'r, 's) eventDispatcher \<Rightarrow> optInt \<Rightarrow> ('c, 'v, 'r) anyEvent \<Rightarrow>
   ('a, 'c, 'v, 'r, 's) eventDispatcher" where
  "addIfSampled smp ed ratio evt =
     (let (b, ed) = shouldSample smp ed ratio in if b then addToOutbox ed evt else ed)"

text \<open>The end of \<open>processEvent\<close>, which the kinds of event with a context share.\<close>

definition processContextEvent ::
  "('c, 'v, 'a, 'y) context_api_scheme \<Rightarrow> 's sampler \<Rightarrow> ('a, 'c, 'v, 'r, 's) eventDispatcher \<Rightarrow>
   ('c, 'v, 'r) anyEvent \<Rightarrow> 'c BaseEvent \<Rightarrow> optInt \<Rightarrow> bool \<Rightarrow> bool \<Rightarrow> ('c, 'v, 'r) anyEvent option \<Rightarrow>
   ('a, 'c, 'v, 'r, 's) eventDispatcher go" where
  "processContextEvent C smp ed evt base samplingRatio willAddFullEvent inlinedUser debugEvent =
     go_bind (lru_add (di_userKeys ed) (c_fullyQualifiedKey C (ec_context (be_Context base))))
       (\<lambda>(alreadySeenUser, uk).
         let ed = ed\<lparr>di_userKeys := uk\<rparr>;
             ed = (if \<not> (willAddFullEvent \<and> inlinedUser) then
                     (if alreadySeenUser then
                        ed\<lparr>di_deduplicatedContexts := di_deduplicatedContexts ed + 1\<rparr>
                      else addToOutbox ed
                        (Index \<lparr>be_CreationDate = be_CreationDate base, be_Context = be_Context base\<rparr>))
                   else ed);
             ed = (if willAddFullEvent then addIfSampled smp ed samplingRatio evt else ed);
             ed = (case debugEvent of None \<Rightarrow> ed | Some de \<Rightarrow> addIfSampled smp ed samplingRatio de)
         in Inr ed)"

definition processEvent ::
  "('c, 'v, 'a, 'y) context_api_scheme \<Rightarrow> 's sampler \<Rightarrow> millis \<Rightarrow>
   ('a, 'c, 'v, 'r, 's) eventDispatcher \<Rightarrow> ('c, 'v, 'r) anyEvent \<Rightarrow>
   ('a, 'c, 'v, 'r, 's) eventDispatcher go" where
  "processEvent C smp now ed evt =
     (if di_disabled ed then Inr ed
      else case evt of
        Evaluation e \<Rightarrow>
          (let samplingRatio = (if ed_ForceSampling e then Some 1 else ed_SamplingRatio e);
               ed = (if \<not> ed_ExcludeFromSummaries e
                     then ed\<lparr>di_outbox := addToSummary C (di_outbox ed) e\<rparr> else ed);
               debugEvent = (if shouldDebugEvent now ed e
                             then Some (Evaluation (e\<lparr>ed_debug := True\<rparr>)) else None)
           in processContextEvent C smp ed evt (ed_BaseEvent e) samplingRatio
                (ed_RequireFullEvent e) False debugEvent)
      | Identify e \<Rightarrow>
          (let samplingRatio = (if id_ForceSampling e then Some 1 else id_SamplingRatio e)
           in processContextEvent C smp ed evt (id_BaseEvent e) samplingRatio True True None)
      | Custom e \<Rightarrow>
          (let samplingRatio = (if cu_ForceSampling e then Some 1 else cu_SamplingRatio e)
           in processContextEvent C smp ed evt (cu_BaseEvent e) samplingRatio True False None)
      | MigrationOp e \<Rightarrow>
          (let samplingRatio = (if mo_ForceSampling e then Some 1 else mo_SamplingRatio e)
           in Inr (addIfSampled smp ed samplingRatio evt))
      | Index _ \<Rightarrow> Inr (addToOutbox ed evt)
      | RawEvent _ \<Rightarrow> Inr (addToOutbox ed evt))"

section \<open>Flushes, results and ticks\<close>

definition triggerFlush ::
  "'v value_api \<Rightarrow> ('a, 'c, 'v, 'r, 's) eventDispatcher \<Rightarrow> ('a, 'c, 'v, 'r, 's) eventDispatcher go"
where
  "triggerFlush V ed =
     (if di_disabled ed then Inr ed
      else let payload = getPayload V (di_outbox ed);
               totalEventCount = int (length (fl_events payload));
               totalEventCount =
                 (if hasCounters (fl_summary payload) then totalEventCount + 1 else totalEventCount)
           in if totalEventCount = 0 then Inr (ed\<lparr>di_eventsInLastBatch := 0\<rparr>)
              else go_bind (wg_Add (di_workersGroup ed) 1) (\<lambda>wg.
                go_bind (chanSend (di_flushCh ed) payload) (\<lambda>sent.
                  case sent of
                    Some ch \<Rightarrow> Inr (ed\<lparr>di_workersGroup := wg, di_flushCh := ch,
                                      di_eventsInLastBatch := totalEventCount,
                                      di_outbox := outbox_clear (di_outbox ed)\<rparr>)
                  | None \<Rightarrow> go_bind (wg_Done wg) (\<lambda>wg. Inr (ed\<lparr>di_workersGroup := wg\<rparr>)))))"

text \<open>The zero value of the other fields of the payload.\<close>

definition diagnosticPayload :: "'v \<Rightarrow> ('c, 'v, 'r) flushPayload" where
  "diagnosticPayload event =
     \<lparr>fl_diagnosticEvent = event, fl_events = [], fl_summary = newEventSummary\<rparr>"

definition sendDiagnosticsEvent ::
  "('a, 'c, 'v, 'r, 's) eventDispatcher \<Rightarrow> 'v \<Rightarrow> ('a, 'c, 'v, 'r, 's) eventDispatcher go" where
  "sendDiagnosticsEvent ed event =
     go_bind (wg_Add (di_workersGroup ed) 1) (\<lambda>wg.
       go_bind (chanSend (di_flushCh ed) (diagnosticPayload event)) (\<lambda>sent.
         case sent of
           Some ch \<Rightarrow> Inr (ed\<lparr>di_workersGroup := wg, di_flushCh := ch\<rparr>)
         | None \<Rightarrow> go_bind (wg_Done wg) (\<lambda>wg. Inr (ed\<lparr>di_workersGroup := wg\<rparr>))))"

definition handleResult ::
  "('a, 'c, 'v, 'r, 's) eventDispatcher \<Rightarrow> EventSenderResult \<Rightarrow> ('a, 'c, 'v, 'r, 's) eventDispatcher"
where
  "handleResult ed result =
     (if di_disabled ed then ed
      else if sr_MustShutDown result
        then ed\<lparr>di_disabled := True, di_outbox := outbox_clear (di_outbox ed)\<rparr>
      else if sr_TimeFromServer result > 0
        then ed\<lparr>di_lastKnownPastTime := sr_TimeFromServer result\<rparr>
      else ed)"

definition usersResetTick ::
  "('a, 'c, 'v, 'r, 's) eventDispatcher \<Rightarrow> ('a, 'c, 'v, 'r, 's) eventDispatcher" where
  "usersResetTick ed = ed\<lparr>di_userKeys := lru_clear (di_userKeys ed)\<rparr>"

definition diagnosticsTick ::
  "'v value_api \<Rightarrow> millis \<Rightarrow> ('a, 'c, 'v, 'r, 's) eventDispatcher \<Rightarrow> 'v DiagnosticsManager option \<Rightarrow>
   (('a, 'c, 'v, 'r, 's) eventDispatcher \<times> 'v DiagnosticsManager option) go" where
  "diagnosticsTick V now ed diagnosticsManager =
     (case diagnosticsManager of
        None \<Rightarrow> Inr (ed, None)
      | Some m \<Rightarrow>
          (let (can, m) = CanSendStatsEvent m
           in if \<not> can then Inr (ed, Some m)
              else let (event, m) = CreateStatsEventAndReset V now m
                         (ob_droppedEvents (di_outbox ed)) (di_deduplicatedContexts ed)
                         (di_eventsInLastBatch ed);
                       ed = ed\<lparr>di_outbox := (di_outbox ed)\<lparr>ob_droppedEvents := 0\<rparr>,
                               di_deduplicatedContexts := 0, di_eventsInLastBatch := 0\<rparr>
                   in go_bind (sendDiagnosticsEvent ed event) (\<lambda>ed. Inr (ed, Some m))))"

section \<open>Start\<close>

definition flushInterval :: "'a EventsConfiguration \<Rightarrow> int" where
  "flushInterval config =
     (if cg_FlushInterval config \<le> 0 then DefaultFlushInterval else cg_FlushInterval config)"

definition userKeysFlushInterval :: "'a EventsConfiguration \<Rightarrow> int" where
  "userKeysFlushInterval config =
     (if cg_UserKeysFlushInterval config \<le> 0 then DefaultUserKeysFlushInterval
      else cg_UserKeysFlushInterval config)"

text \<open>\<open>None\<close> when there is no diagnostics ticker.\<close>

definition diagnosticsInterval :: "'a EventsConfiguration \<Rightarrow> int option" where
  "diagnosticsInterval config =
     (if cg_HasDiagnosticsManager config then
        Some (let interval = cg_DiagnosticRecordingInterval config
              in if interval > 0 then
                   (if interval < MinimumDiagnosticRecordingInterval
                    then DefaultDiagnosticRecordingInterval else interval)
                 else if cg_forceDiagnosticRecordingInterval config > 0
                   then cg_forceDiagnosticRecordingInterval config
                 else DefaultDiagnosticRecordingInterval)
      else None)"

definition startEventDispatcher ::
  "'v value_api \<Rightarrow> goRuntime \<Rightarrow> 'a EventsConfiguration \<Rightarrow> 's \<Rightarrow> 'v DiagnosticsManager option \<Rightarrow>
   ('a, 'c, 'v, 'r, 's) eventDispatcher go" where
  "startEventDispatcher V rt config sampler diagnosticsManager =
     go_bind (newEventsOutbox (cg_Capacity config)) (\<lambda>outbox.
       let ed = \<lparr>di_config = config, di_outbox = outbox, di_flushCh = makeChan 1,
                 di_senderResultCh = makeChan maxFlushWorkers, di_workersGroup = 0,
                 di_userKeys = newLruCache (cg_UserKeysCapacity config),
                 di_lastKnownPastTime = 0, di_deduplicatedContexts = 0,
                 di_eventsInLastBatch = 0, di_disabled = False, di_sampler = sampler\<rparr>
       in case diagnosticsManager of
            None \<Rightarrow> Inr ed
          | Some m \<Rightarrow> sendDiagnosticsEvent ed (CreateInitEvent V rt m))"

section \<open>What an event contributes\<close>

fun contextBase :: "('c, 'v, 'r) anyEvent \<Rightarrow> 'c BaseEvent option" where
  "contextBase (Evaluation e) = Some (ed_BaseEvent e)"
| "contextBase (Identify e) = Some (id_BaseEvent e)"
| "contextBase (Custom e) = Some (cu_BaseEvent e)"
| "contextBase _ = None"

definition baseKey :: "('c, 'v, 'a, 'y) context_api_scheme \<Rightarrow> 'c BaseEvent \<Rightarrow> string" where
  "baseKey C b = c_fullyQualifiedKey C (ec_context (be_Context b))"

definition isIdentify :: "('c, 'v, 'r) anyEvent \<Rightarrow> bool" where
  "isIdentify evt \<longleftrightarrow> (case evt of Identify _ \<Rightarrow> True | _ \<Rightarrow> False)"

text \<open>The index event, for a context that is not among the known ones.\<close>

definition indexEvents ::
  "('c, 'v, 'a, 'y) context_api_scheme \<Rightarrow> string set \<Rightarrow> ('c, 'v, 'r) anyEvent \<Rightarrow>
   ('c, 'v, 'r) anyEvent list" where
  "indexEvents C known evt =
     (case contextBase evt of
        None \<Rightarrow> []
      | Some b \<Rightarrow> if isIdentify evt \<or> baseKey C b \<in> known then [] else [Index b])"

definition deduplicates ::
  "('c, 'v, 'a, 'y) context_api_scheme \<Rightarrow> string set \<Rightarrow> ('c, 'v, 'r) anyEvent \<Rightarrow> bool" where
  "deduplicates C known evt \<longleftrightarrow>
     (case contextBase evt of None \<Rightarrow> False | Some b \<Rightarrow> \<not> isIdentify evt \<and> baseKey C b \<in> known)"

text \<open>The events that go out as they are, and those that each need a draw from the sampler.\<close>

fun unsampled :: "('c, 'v, 'r) anyEvent \<Rightarrow> ('c, 'v, 'r) anyEvent list" where
  "unsampled (Index b) = [Index b]"
| "unsampled (RawEvent data) = [RawEvent data]"
| "unsampled _ = []"

fun candidates :: "bool \<Rightarrow> ('c, 'v, 'r) anyEvent \<Rightarrow> ('c, 'v, 'r) anyEvent list" where
  "candidates debugging (Evaluation e) =
     (if ed_RequireFullEvent e then [Evaluation e] else []) @
     (if debugging then [Evaluation (e\<lparr>ed_debug := True\<rparr>)] else [])"
| "candidates debugging (Identify e) = [Identify e]"
| "candidates debugging (Custom e) = [Custom e]"
| "candidates debugging (MigrationOp e) = [MigrationOp e]"
| "candidates debugging _ = []"

definition ratioOf :: "('c, 'v, 'r) anyEvent \<Rightarrow> int" where
  "ratioOf evt =
     (case (case evt of
              Evaluation e \<Rightarrow> if ed_ForceSampling e then Some 1 else ed_SamplingRatio e
            | Identify e \<Rightarrow> if id_ForceSampling e then Some 1 else id_SamplingRatio e
            | Custom e \<Rightarrow> if cu_ForceSampling e then Some 1 else cu_SamplingRatio e
            | MigrationOp e \<Rightarrow> if mo_ForceSampling e then Some 1 else mo_SamplingRatio e
            | _ \<Rightarrow> None) of None \<Rightarrow> 1 | Some n \<Rightarrow> n)"

fun sampled :: "'s sampler \<Rightarrow> bool \<Rightarrow> int \<Rightarrow> 's \<Rightarrow> 'e list \<Rightarrow> 'e list \<times> 's" where
  "sampled smp force n s [] = ([], s)"
| "sampled smp force n s (e # es) =
     (let (b, s) = (if force then (True, s) else smp s n);
          (es, s) = sampled smp force n s es
      in (if b then e # es else es, s))"

fun debugging :: "millis \<Rightarrow> millis \<Rightarrow> ('c, 'v, 'r) anyEvent \<Rightarrow> bool" where
  "debugging past now (Evaluation e) \<longleftrightarrow>
     ed_DebugEventsUntilDate e > past \<and> ed_DebugEventsUntilDate e > now"
| "debugging past now _ \<longleftrightarrow> False"

definition summarized ::
  "('c, 'v, 'a, 'y) context_api_scheme \<Rightarrow> ('c, 'v, 'r) eventsOutbox \<Rightarrow> ('c, 'v, 'r) anyEvent \<Rightarrow>
   ('c, 'v, 'r) eventsOutbox" where
  "summarized C b evt =
     (case evt of
        Evaluation e \<Rightarrow> if ed_ExcludeFromSummaries e then b else addToSummary C b e
      | _ \<Rightarrow> b)"

lemma summarized_simps [simp]:
  "ob_events (summarized C b evt) = ob_events b"
  "ob_capacity (summarized C b evt) = ob_capacity b"
  "ob_droppedEvents (summarized C b evt) = ob_droppedEvents b"
  by (simp_all add: summarized_def split: anyEvent.split)

lemma outbox_inv_summarized [inv_intros]: "outbox_inv b \<Longrightarrow> outbox_inv (summarized C b evt)"
  by (simp add: summarized_def outbox_inv_addToSummary split: anyEvent.split)

text \<open>Everything the event puts into the outbox, in order, and the sampler's state after it.\<close>

definition emissions ::
  "('c, 'v, 'a, 'y) context_api_scheme \<Rightarrow> 's sampler \<Rightarrow> millis \<Rightarrow>
   ('a, 'c, 'v, 'r, 's) eventDispatcher \<Rightarrow> ('c, 'v, 'r) anyEvent \<Rightarrow> ('c, 'v, 'r) anyEvent list \<times> 's"
where
  "emissions C smp now ed evt =
     (let (es, s) = sampled smp (cg_forceSampling (di_config ed)) (ratioOf evt) (di_sampler ed)
            (candidates (debugging (di_lastKnownPastTime ed) now evt) evt)
      in (unsampled evt @ indexEvents C (set (lru_keys (di_userKeys ed))) evt @ es, s))"

lemma shouldDebugEvent_debugging:
  "shouldDebugEvent now ed e \<longleftrightarrow> debugging (di_lastKnownPastTime ed) now (Evaluation e)"
  by (auto simp: shouldDebugEvent_def)

lemma addIfSampled_eq:
  "addIfSampled smp ed ratio evt =
     (let (es, s) = sampled smp (cg_forceSampling (di_config ed)) (case ratio of None \<Rightarrow> 1 | Some n \<Rightarrow> n)
            (di_sampler ed) [evt]
      in ed\<lparr>di_outbox := foldl addEvent (di_outbox ed) es, di_sampler := s\<rparr>)"
  by (cases "cg_forceSampling (di_config ed)")
    (auto simp: addIfSampled_def shouldSample_def addToOutbox_def Let_def split: prod.splits)

lemma sampled_append:
  "sampled smp force n s (xs @ ys) =
     (let (es, s) = sampled smp force n s xs; (fs, s) = sampled smp force n s ys in (es @ fs, s))"
  by (induction xs arbitrary: s) (auto simp: Let_def split: prod.splits)

lemma base_eq [simp]: "\<lparr>be_CreationDate = be_CreationDate b, be_Context = be_Context b\<rparr> = b"
  by (cases b) simp

lemma processContextEvent_eq:
  assumes "lru_add (di_userKeys ed) (baseKey C base) = Inr (seen, uk)"
  shows "processContextEvent C smp ed evt base ratio full inlined de =
    Inr (let (es, s) = sampled smp (cg_forceSampling (di_config ed)) (case ratio of None \<Rightarrow> 1 | Some n \<Rightarrow> n)
               (di_sampler ed)
               ((if full then [evt] else []) @ (case de of None \<Rightarrow> [] | Some d \<Rightarrow> [d]))
         in ed\<lparr>di_userKeys := uk,
               di_outbox := foldl addEvent (di_outbox ed)
                 ((if full \<and> inlined \<or> seen then [] else [Index base]) @ es),
               di_sampler := s,
               di_deduplicatedContexts := di_deduplicatedContexts ed +
                 (if \<not> (full \<and> inlined) \<and> seen then 1 else 0)\<rparr>)"
  using assms
  by (cases de; cases full; cases inlined; cases seen)
    (simp_all add: processContextEvent_def baseKey_def addIfSampled_eq addToOutbox_def sampled_append
      Let_def split_def)

text \<open>The state after an event, given the outcome of looking its context up.\<close>

definition afterEvent ::
  "('c, 'v, 'a, 'y) context_api_scheme \<Rightarrow> 's sampler \<Rightarrow> millis \<Rightarrow>
   ('a, 'c, 'v, 'r, 's) eventDispatcher \<Rightarrow> ('c, 'v, 'r) anyEvent \<Rightarrow> string lruCache \<Rightarrow>
   ('a, 'c, 'v, 'r, 's) eventDispatcher" where
  "afterEvent C smp now ed evt uk =
     ed\<lparr>di_userKeys := uk,
        di_outbox := foldl addEvent (summarized C (di_outbox ed) evt) (fst (emissions C smp now ed evt)),
        di_sampler := snd (emissions C smp now ed evt),
        di_deduplicatedContexts := di_deduplicatedContexts ed +
          (if deduplicates C (set (lru_keys (di_userKeys ed))) evt then 1 else 0)\<rparr>"

lemma afterEvent_simps [simp]:
  "di_config (afterEvent C smp now ed evt uk) = di_config ed"
  "di_flushCh (afterEvent C smp now ed evt uk) = di_flushCh ed"
  "di_senderResultCh (afterEvent C smp now ed evt uk) = di_senderResultCh ed"
  "di_workersGroup (afterEvent C smp now ed evt uk) = di_workersGroup ed"
  "di_userKeys (afterEvent C smp now ed evt uk) = uk"
  "di_lastKnownPastTime (afterEvent C smp now ed evt uk) = di_lastKnownPastTime ed"
  "di_eventsInLastBatch (afterEvent C smp now ed evt uk) = di_eventsInLastBatch ed"
  "di_disabled (afterEvent C smp now ed evt uk) = di_disabled ed"
  by (simp_all add: afterEvent_def)

lemma processEvent_context:
  fixes ed :: "('a, 'c, 'v, 'r, 's) eventDispatcher"
  assumes "\<not> di_disabled ed" and "lru_inv (di_userKeys ed)" and "contextBase evt = Some base"
    and a: "lru_add (di_userKeys ed) (baseKey C base) = Inr (seen, uk)"
  shows "processEvent C smp now ed evt = Inr (afterEvent C smp now ed evt uk)"
proof -
  have seen: "seen \<longleftrightarrow> baseKey C base \<in> set (lru_keys (di_userKeys ed))"
    using lru.add_result [OF assms(2) a] .
  have ctx: "processContextEvent C smp ed' evt' base ratio full inlined de =
    Inr (let (es, s) = sampled smp (cg_forceSampling (di_config ed')) (case ratio of None \<Rightarrow> 1 | Some n \<Rightarrow> n)
               (di_sampler ed')
               ((if full then [evt'] else []) @ (case de of None \<Rightarrow> [] | Some d \<Rightarrow> [d]))
         in ed'\<lparr>di_userKeys := uk,
               di_outbox := foldl addEvent (di_outbox ed')
                 ((if full \<and> inlined \<or> seen then [] else [Index base]) @ es),
               di_sampler := s,
               di_deduplicatedContexts := di_deduplicatedContexts ed' +
                 (if \<not> (full \<and> inlined) \<and> seen then 1 else 0)\<rparr>)"
    if "di_userKeys ed' = di_userKeys ed"
    for ed' :: "('a, 'c, 'v, 'r, 's) eventDispatcher" and evt' ratio full inlined de
    by (rule processContextEvent_eq) (simp add: that a)
  note defs = processEvent_def Let_def ctx afterEvent_def emissions_def summarized_def ratioOf_def
    indexEvents_def deduplicates_def isIdentify_def split_def
  show ?thesis
  proof (cases evt)
    case (Evaluation e)
    with assms(1,3) show ?thesis
      by (cases "ed_ExcludeFromSummaries e")
        (simp_all add: defs seen shouldDebugEvent_debugging if_distrib cong: if_cong)
  next
    case (Identify e)
    with assms(1,3) show ?thesis by (simp add: defs)
  next
    case (Custom e)
    with assms(1,3) show ?thesis by (simp add: defs seen)
  qed (use assms(3) in simp_all)
qed

lemma processEvent_plain:
  assumes "\<not> di_disabled ed" and "contextBase evt = None"
  shows "processEvent C smp now ed evt = Inr (afterEvent C smp now ed evt (di_userKeys ed))"
  using assms
  by (cases evt)
    (simp_all add: processEvent_def Let_def addIfSampled_eq addToOutbox_def afterEvent_def
      emissions_def summarized_def ratioOf_def indexEvents_def deduplicates_def split_def)

text \<open>What the lookup of an event's context leaves in the cache.\<close>

definition seenAfter ::
  "('c, 'v, 'a, 'y) context_api_scheme \<Rightarrow> int \<Rightarrow> string list \<Rightarrow> ('c, 'v, 'r) anyEvent \<Rightarrow> string list" where
  "seenAfter C cap known evt =
     (case contextBase evt of None \<Rightarrow> known | Some b \<Rightarrow> snd (lru_spec cap known (baseKey C b)))"

lemma processEvent_eq:
  assumes "\<not> di_disabled ed" and "lru_inv (di_userKeys ed)"
  shows "\<exists>uk. processEvent C smp now ed evt = Inr (afterEvent C smp now ed evt uk) \<and>
    lru_inv uk \<and> lc_capacity uk = lc_capacity (di_userKeys ed) \<and>
    lru_keys uk = seenAfter C (lc_capacity (di_userKeys ed)) (lru_keys (di_userKeys ed)) evt"
proof (cases "contextBase evt")
  case None
  then show ?thesis
    using assms by (intro exI [of _ "di_userKeys ed"]) (simp add: seenAfter_def processEvent_plain)
next
  case (Some b)
  obtain seen uk where u: "lru_add (di_userKeys ed) (baseKey C b) = Inr (seen, uk)"
    using lru.add_returns [OF assms(2)] by blast
  have "processEvent C smp now ed evt = Inr (afterEvent C smp now ed evt uk)"
    by (rule processEvent_context [OF assms Some u])
  then show ?thesis
    using lru_add_cases [OF assms(2) u]
    by (intro exI [of _ uk]) (simp add: seenAfter_def Some prod_eq_iff)
qed

lemma processEvent_disabled: "di_disabled ed \<Longrightarrow> processEvent C smp now ed evt = Inr ed"
  by (simp add: processEvent_def)

section \<open>Properties of event handling\<close>

text \<open>
  C14: Handling an event never panics while the cache of context keys is in its invariant, and its
  effect is exactly this: the evaluation is added to the summary unless excluded; the outbox then
  receives, in order, an index event if the context is new (not for identify events), the full event
  if it is wanted and sampled, and the debug copy if debugging is on and it is sampled; a repeated
  context counts as deduplicated; and the context becomes the most recent known key.
\<close>

theorem processEvent_effect:
  assumes "\<not> di_disabled ed" and "lru_inv (di_userKeys ed)"
  shows "\<exists>uk. processEvent C smp now ed evt = Inr (afterEvent C smp now ed evt uk) \<and>
    lru_inv uk \<and> lc_capacity uk = lc_capacity (di_userKeys ed) \<and>
    lru_keys uk = seenAfter C (lc_capacity (di_userKeys ed)) (lru_keys (di_userKeys ed)) evt"
  by (rule processEvent_eq [OF assms])

definition sampleConfig :: "string list EventsConfiguration" where
  "sampleConfig =
     \<lparr>cg_AllAttributesPrivate = False, cg_Capacity = 100, cg_DiagnosticRecordingInterval = 0,
      cg_HasDiagnosticsManager = False, cg_FlushInterval = 0, cg_LogUserKeyInErrors = False,
      cg_PrivateAttributes = [], cg_UserKeysCapacity = 10, cg_UserKeysFlushInterval = 0,
      cg_forceDiagnosticRecordingInterval = 0, cg_forceSampling = False\<rparr>"

definition sampleDispatcher ::
  "(string list, sctx, sval, string, nat) eventDispatcher" where
  "sampleDispatcher =
     \<lparr>di_config = sampleConfig, di_outbox = sampleOutbox 100, di_flushCh = makeChan 1,
      di_senderResultCh = makeChan maxFlushWorkers, di_workersGroup = 0,
      di_userKeys = newLruCache 10, di_lastKnownPastTime = 0, di_deduplicatedContexts = 0,
      di_eventsInLastBatch = 0, di_disabled = False, di_sampler = 0\<rparr>"

lemma sampleDispatcher_simps [simp]:
  "\<not> di_disabled sampleDispatcher" "lru_inv (di_userKeys sampleDispatcher)"
  "di_outbox sampleDispatcher = sampleOutbox 100" "di_userKeys sampleDispatcher = newLruCache 10"
  "di_deduplicatedContexts sampleDispatcher = 0" "di_config sampleDispatcher = sampleConfig"
  "di_lastKnownPastTime sampleDispatcher = 0" "di_sampler sampleDispatcher = 0"
  by (simp_all add: sampleDispatcher_def lru_inv_new)

theorem processEvent_effect_witness:
  "\<exists>ed'. processEvent sampleC sampleS 5 sampleDispatcher (Evaluation (sampleEval ''f'' 1 20)) = Inr ed' \<and>
     lru_keys (di_userKeys ed') = [''user:u'']"
proof -
  have k: "seenAfter sampleC (lc_capacity (newLruCache 10 :: string lruCache)) [] (Evaluation (sampleEval ''f'' 1 20)) =
      [''user:u'']"
    by code_simp
  have "\<exists>uk. processEvent sampleC sampleS 5 sampleDispatcher (Evaluation (sampleEval ''f'' 1 20)) =
      Inr (afterEvent sampleC sampleS 5 sampleDispatcher (Evaluation (sampleEval ''f'' 1 20)) uk) \<and>
      lru_keys uk = [''user:u'']"
    using processEvent_effect [of sampleDispatcher sampleC sampleS 5 "Evaluation (sampleEval ''f'' 1 20)"] k
    by (auto simp: lru_inv_new)
  then show ?thesis by (auto simp: afterEvent_simps)
qed

lemma sampled_all: "force \<or> (\<forall>s. fst (smp s n)) \<Longrightarrow> fst (sampled smp force n s es) = es"
  by (induction es arbitrary: s) (auto simp: Let_def split_def)

lemma sampled_none: "\<forall>s. \<not> fst (smp s n) \<Longrightarrow> fst (sampled smp False n s es) = []"
  by (induction es arbitrary: s) (auto simp: Let_def split_def)

text \<open>
  Sampling decides about full and debug events only. With a sampler that obeys its contract, an
  event that is forced or has ratio one is sent with certainty, one with ratio zero or less never;
  the summary and the index event are the same in both cases.
\<close>

theorem sampling_scope:
  assumes "sampler_law smp" and "\<not> di_disabled ed" and "lru_inv (di_userKeys ed)"
    and "processEvent C smp now ed evt = Inr ed'"
  defines "known \<equiv> set (lru_keys (di_userKeys ed))"
    and "force \<equiv> cg_forceSampling (di_config ed)"
  shows "(force \<or> ratioOf evt = 1 \<longrightarrow>
       di_outbox ed' = foldl addEvent (summarized C (di_outbox ed) evt)
         (unsampled evt @ indexEvents C known evt @
          candidates (debugging (di_lastKnownPastTime ed) now evt) evt)) \<and>
    (\<not> force \<and> ratioOf evt \<le> 0 \<longrightarrow>
       di_outbox ed' = foldl addEvent (summarized C (di_outbox ed) evt)
         (unsampled evt @ indexEvents C known evt))"
proof -
  obtain uk where "ed' = afterEvent C smp now ed evt uk"
    using processEvent_eq [OF assms(2,3), of C smp now evt] assms(4) by auto
  then have "di_outbox ed' = foldl addEvent (summarized C (di_outbox ed) evt)
      (fst (emissions C smp now ed evt))"
    by (simp add: afterEvent_def)
  moreover have "force \<or> ratioOf evt = 1 \<Longrightarrow>
      fst (sampled smp force (ratioOf evt) (di_sampler ed) es) = es" for es :: "('c, 'd, 'e) anyEvent list"
    by (rule sampled_all) (use sampler_lawD(1) [OF assms(1)] in auto)
  moreover have "ratioOf evt \<le> 0 \<Longrightarrow>
      fst (sampled smp False (ratioOf evt) (di_sampler ed) es) = []" for es :: "('c, 'd, 'e) anyEvent list"
    by (rule sampled_none) (use sampler_lawD(2) [OF assms(1)] in blast)
  ultimately show ?thesis by (auto simp: emissions_def known_def force_def split_def Let_def)
qed

theorem sampling_scope_witness:
  "\<exists>ed'. processEvent sampleC sampleS 5 sampleDispatcher (Evaluation (sampleEval ''f'' 1 20)) = Inr ed' \<and>
     ob_events (di_outbox ed') =
       [Index \<lparr>be_CreationDate = 20, be_Context = Context (sampleUser ''u'')\<rparr>,
        Evaluation (sampleEval ''f'' 1 20)]"
proof -
  let ?e = "Evaluation (sampleEval ''f'' 1 20) :: (sctx, sval, string) anyEvent"
  have d: "\<not> di_disabled sampleDispatcher" "lru_inv (di_userKeys sampleDispatcher)"
    by (simp_all add: lru_inv_new)
  obtain ed' where ed': "processEvent sampleC sampleS 5 sampleDispatcher ?e = Inr ed'"
    using processEvent_eq [OF d, of sampleC sampleS 5 ?e] by blast
  note scope = sampling_scope [OF sampler_law_sample d ed', THEN conjunct1, THEN mp,
      unfolded sampleDispatcher_simps lru_keys_new list.set(1)]
  have "ratioOf ?e = 1" by (simp add: ratioOf_def sampleEval_def)
  moreover have "unsampled ?e @ indexEvents sampleC {} ?e @ candidates (debugging 0 5 ?e) ?e =
      [Index \<lparr>be_CreationDate = 20, be_Context = Context (sampleUser ''u'')\<rparr>, ?e]"
    by (simp add: indexEvents_def isIdentify_def sampleEval_def)
  ultimately have o: "di_outbox ed' = foldl addEvent (summarized sampleC (sampleOutbox 100) ?e)
      [Index \<lparr>be_CreationDate = 20, be_Context = Context (sampleUser ''u'')\<rparr>, ?e]"
    using scope by simp
  have inv: "outbox_inv (summarized sampleC (sampleOutbox 100) ?e)"
    by (rule outbox_inv_summarized) simp
  have "ob_events (summarized sampleC (sampleOutbox 100) ?e) = []"
    "ob_capacity (summarized sampleC (sampleOutbox 100) ?e) = 100"
    by (simp_all add: sampleOutbox_def)
  then have "ob_events (di_outbox ed') =
      [Index \<lparr>be_CreationDate = 20, be_Context = Context (sampleUser ''u'')\<rparr>, ?e]"
    unfolding o outbox.add_all [OF inv, THEN conjunct1] by simp
  with ed' show ?thesis by blast
qed

section \<open>Runs of events\<close>

fun processAll ::
  "('c, 'v, 'a, 'y) context_api_scheme \<Rightarrow> 's sampler \<Rightarrow> ('a, 'c, 'v, 'r, 's) eventDispatcher \<Rightarrow>
   (millis \<times> ('c, 'v, 'r) anyEvent) list \<Rightarrow> ('a, 'c, 'v, 'r, 's) eventDispatcher go" where
  "processAll C smp ed [] = Inr ed"
| "processAll C smp ed ((now, evt) # es) =
     go_bind (processEvent C smp now ed evt) (\<lambda>ed. processAll C smp ed es)"

definition isIndex :: "('c, 'v, 'r) anyEvent \<Rightarrow> bool" where
  "isIndex evt \<longleftrightarrow> (case evt of Index _ \<Rightarrow> True | _ \<Rightarrow> False)"

definition keysOf :: "('c, 'v, 'a, 'y) context_api_scheme \<Rightarrow> ('c, 'v, 'r) anyEvent \<Rightarrow> string set" where
  "keysOf C evt = (case contextBase evt of None \<Rightarrow> {} | Some b \<Rightarrow> {baseKey C b})"

text \<open>The contexts of a run that were not seen before, and the number of those that were.\<close>

fun newContexts ::
  "('c, 'v, 'a, 'y) context_api_scheme \<Rightarrow> string set \<Rightarrow> ('c, 'v, 'r) anyEvent list \<Rightarrow>
   ('c, 'v, 'r) anyEvent list" where
  "newContexts C seen [] = []"
| "newContexts C seen (evt # es) =
     indexEvents C seen evt @ newContexts C (seen \<union> keysOf C evt) es"

fun repeats :: "('c, 'v, 'a, 'y) context_api_scheme \<Rightarrow> string set \<Rightarrow> ('c, 'v, 'r) anyEvent list \<Rightarrow> nat" where
  "repeats C seen [] = 0"
| "repeats C seen (evt # es) =
     (if deduplicates C seen evt then 1 else 0) + repeats C (seen \<union> keysOf C evt) es"

lemma length_sampled: "length (fst (sampled smp force n s es)) \<le> length es"
  by (induction es arbitrary: s) (auto simp: Let_def split_def intro: le_SucI)

lemma set_sampled: "set (fst (sampled smp force n s es)) \<subseteq> set es"
  by (induction es arbitrary: s) (auto simp: Let_def split_def, blast+)

lemma length_candidates: "length (unsampled evt @ indexEvents C known evt @ candidates dbg evt) \<le> 3"
  by (cases evt) (auto simp: indexEvents_def split: option.split)

lemma length_emissions: "length (fst (emissions C smp now ed evt)) \<le> 3"
  using length_candidates [of evt C "set (lru_keys (di_userKeys ed))"
      "debugging (di_lastKnownPastTime ed) now evt"]
    length_sampled [of smp "cg_forceSampling (di_config ed)" "ratioOf evt" "di_sampler ed"
      "candidates (debugging (di_lastKnownPastTime ed) now evt) evt"]
  by (simp add: emissions_def split_def Let_def)

lemma candidates_not_index: "e \<in> set (candidates dbg evt) \<Longrightarrow> \<not> isIndex e"
  by (cases evt) (auto simp: isIndex_def split: if_splits)

lemma filter_index_emissions:
  assumes "\<not> isIndex evt"
  shows "filter isIndex (fst (emissions C smp now ed evt)) =
    indexEvents C (set (lru_keys (di_userKeys ed))) evt"
proof -
  have "\<not> isIndex e" if "e \<in> set (fst (sampled smp f n s (candidates dbg evt)))" for e f n s dbg
    using that set_sampled candidates_not_index by (metis subsetD)
  then have "filter isIndex (fst (sampled smp f n s (candidates dbg evt))) = []" for f n s dbg
    by (simp add: filter_empty_conv)
  moreover have "filter isIndex (unsampled evt) = []"
    using assms by (cases evt) (simp_all add: isIndex_def)
  moreover have "filter isIndex (indexEvents C known evt) = indexEvents C known evt" for known
    by (simp add: indexEvents_def isIndex_def split: option.split)
  ultimately show ?thesis by (simp add: emissions_def split_def Let_def)
qed

lemma afterEvent_events:
  assumes "outbox_inv (di_outbox ed)"
  shows "outbox_inv (di_outbox (afterEvent C smp now ed evt uk))"
    and "ob_capacity (di_outbox (afterEvent C smp now ed evt uk)) = ob_capacity (di_outbox ed)"
    and "int (length (ob_events (di_outbox ed))) + 3 \<le> ob_capacity (di_outbox ed) \<Longrightarrow>
      ob_events (di_outbox (afterEvent C smp now ed evt uk)) =
        ob_events (di_outbox ed) @ fst (emissions C smp now ed evt)"
proof -
  let ?b = "summarized C (di_outbox ed) evt" and ?es = "fst (emissions C smp now ed evt)"
  have i: "outbox_inv ?b" by (rule outbox_inv_summarized [OF assms])
  show "outbox_inv (di_outbox (afterEvent C smp now ed evt uk))"
    using outbox.add_all_inv [OF i] by (simp add: afterEvent_def)
  show "ob_capacity (di_outbox (afterEvent C smp now ed evt uk)) = ob_capacity (di_outbox ed)"
  proof -
    have "ob_capacity (foldl addEvent b es) = ob_capacity b" for b :: "('a, 'b, 'c) eventsOutbox" and es
      by (induction es arbitrary: b) simp_all
    then show ?thesis by (simp add: afterEvent_def)
  qed
  assume "int (length (ob_events (di_outbox ed))) + 3 \<le> ob_capacity (di_outbox ed)"
  moreover have "length ?es \<le> 3" by (rule length_emissions)
  ultimately show "ob_events (di_outbox (afterEvent C smp now ed evt uk)) =
      ob_events (di_outbox ed) @ ?es"
    using outbox.add_all [OF i, of ?es] by (simp add: afterEvent_def)
qed

lemma afterEvent_keys:
  assumes "contextBase evt = Some b"
    and "lru_inv (di_userKeys ed)"
    and "int (card (set (lru_keys (di_userKeys ed)) \<union> keysOf C evt)) \<le> lc_capacity (di_userKeys ed)"
    and "lru_keys uk = seenAfter C (lc_capacity (di_userKeys ed)) (lru_keys (di_userKeys ed)) evt"
  shows "set (lru_keys uk) = set (lru_keys (di_userKeys ed)) \<union> keysOf C evt"
proof -
  have "distinct (lru_keys (di_userKeys ed))"
    using assms(2) by (simp add: lru_inv_def lru_keys_def)
  moreover have "int (card (insert (baseKey C b) (set (lru_keys (di_userKeys ed))))) \<le>
      lc_capacity (di_userKeys ed)"
    using assms(1,3) by (simp add: keysOf_def)
  ultimately show ?thesis
    using lru_spec_room(2) assms(1,4) by (fastforce simp: seenAfter_def keysOf_def)
qed

text \<open>
  C15: Over a run of recorded events, if the cache can hold all their context keys and the outbox
  all their output, exactly one index event is emitted for each context that an evaluation or a
  custom event refers to and no earlier event did, in the order of first reference; all other
  references are counted as deduplicated. (An identify event makes its context known without one.)
\<close>

theorem index_events_exact:
  fixes ed :: "('a, 'c, 'v, 'r, 's) eventDispatcher"
  assumes "\<not> di_disabled ed" and "lru_inv (di_userKeys ed)" and "outbox_inv (di_outbox ed)"
    and "list_all (\<lambda>(now, evt). \<not> isIndex evt) evts"
    and "int (card (set (lru_keys (di_userKeys ed)) \<union> (\<Union>(now, evt) \<in> set evts. keysOf C evt)))
      \<le> lc_capacity (di_userKeys ed)"
    and "int (length (ob_events (di_outbox ed)) + 3 * length evts) \<le> ob_capacity (di_outbox ed)"
  shows "\<exists>ed'. processAll C smp ed evts = Inr ed' \<and>
    filter isIndex (ob_events (di_outbox ed')) =
      filter isIndex (ob_events (di_outbox ed)) @
      newContexts C (set (lru_keys (di_userKeys ed))) (map snd evts) \<and>
    di_deduplicatedContexts ed' =
      di_deduplicatedContexts ed + word_of_nat (repeats C (set (lru_keys (di_userKeys ed))) (map snd evts))"
  using assms
proof (induction evts arbitrary: ed)
  case Nil
  then show ?case by simp
next
  case (Cons e evts)
  obtain now evt where e: "e = (now, evt)" by fastforce
  let ?known = "set (lru_keys (di_userKeys ed))" and ?cap = "lc_capacity (di_userKeys ed)"
  obtain uk where p: "processEvent C smp now ed evt = Inr (afterEvent C smp now ed evt uk)"
    and uk: "lru_inv uk" "lc_capacity uk = ?cap"
      "lru_keys uk = seenAfter C ?cap (lru_keys (di_userKeys ed)) evt"
    using processEvent_eq [OF Cons.prems(1,2)] by blast
  let ?ed = "afterEvent C smp now ed evt uk"
  let ?K = "?known \<union> (\<Union>(now, evt) \<in> set (e # evts). keysOf C evt)"
  have fin: "finite ?K" by (auto simp: e keysOf_def split: option.split)
  have "card (?known \<union> keysOf C evt) \<le> card ?K" by (rule card_mono [OF fin]) (auto simp: e)
  then have "set (lru_keys uk) = ?known \<union> keysOf C evt"
    using afterEvent_keys [of evt _ ed C uk] Cons.prems(2,5) uk(3)
    by (cases "contextBase evt") (auto simp: seenAfter_def keysOf_def)
  moreover from this have "?K = set (lru_keys uk) \<union> (\<Union>(now, evt) \<in> set evts. keysOf C evt)"
    by (auto simp: e)
  moreover note ev = afterEvent_events [OF Cons.prems(3), of C smp now evt uk]
  moreover have es: "ob_events (di_outbox ?ed) = ob_events (di_outbox ed) @ fst (emissions C smp now ed evt)"
    using Cons.prems(6) by (intro ev(3)) simp
  moreover have "length (fst (emissions C smp now ed evt)) \<le> 3" by (rule length_emissions)
  ultimately have "\<exists>ed'. processAll C smp ?ed evts = Inr ed' \<and>
      filter isIndex (ob_events (di_outbox ed')) =
        filter isIndex (ob_events (di_outbox ?ed)) @ newContexts C (set (lru_keys uk)) (map snd evts) \<and>
      di_deduplicatedContexts ed' =
        di_deduplicatedContexts ?ed + word_of_nat (repeats C (set (lru_keys uk)) (map snd evts))"
    using Cons.IH [of ?ed] Cons.prems(1,4,5,6) uk(1,2) by (simp add: e)
  moreover have "filter isIndex (fst (emissions C smp now ed evt)) = indexEvents C ?known evt"
    using Cons.prems(4) by (intro filter_index_emissions) (simp add: e)
  ultimately show ?case
    using p es \<open>set (lru_keys uk) = ?known \<union> keysOf C evt\<close>
    by (auto simp: e afterEvent_def)
qed

theorem index_events_exact_witness:
  "\<exists>ed'. processAll sampleC sampleS sampleDispatcher
      [(0, Evaluation (sampleEval ''f'' 1 20)), (0, Evaluation (sampleEval ''g'' 0 30))] = Inr ed' \<and>
    filter isIndex (ob_events (di_outbox ed')) =
      [Index \<lparr>be_CreationDate = 20, be_Context = Context (sampleUser ''u'')\<rparr>] \<and>
    di_deduplicatedContexts ed' = 1"
proof -
  let ?es = "[(0, Evaluation (sampleEval ''f'' 1 20)), (0, Evaluation (sampleEval ''g'' 0 30))]
    :: (millis \<times> (sctx, sval, string) anyEvent) list"
  have k: "keysOf sampleC (Evaluation (sampleEval f v d)) = {''user:u''}" for f v d
    by (simp add: keysOf_def baseKey_def sample_simps)
  have n: "newContexts sampleC {} (map snd ?es) =
      [Index \<lparr>be_CreationDate = 20, be_Context = Context (sampleUser ''u'')\<rparr>]"
    by code_simp
  have r: "repeats sampleC {} (map snd ?es) = 1" by code_simp
  have "\<not> di_disabled sampleDispatcher" "lru_inv (di_userKeys sampleDispatcher)"
    "outbox_inv (di_outbox sampleDispatcher)" "list_all (\<lambda>(now, evt). \<not> isIndex evt) ?es"
    "int (card (set (lru_keys (di_userKeys sampleDispatcher)) \<union> (\<Union>(now, evt) \<in> set ?es. keysOf sampleC evt)))
      \<le> lc_capacity (di_userKeys sampleDispatcher)"
    "int (length (ob_events (di_outbox sampleDispatcher)) + 3 * length ?es)
      \<le> ob_capacity (di_outbox sampleDispatcher)"
    by (simp_all add: lru_inv_new isIndex_def k)
      (simp_all add: newLruCache_def sampleOutbox_def)
  from index_events_exact [OF this, of sampleS] show ?thesis
    unfolding sampleDispatcher_simps lru_keys_new list.set(1) n r
    by (simp add: sampleOutbox_def del: processAll.simps)
qed

lemma addEvent_grows: "set (ob_events b) \<subseteq> set (ob_events (foldl addEvent b es))"
  by (induction es rule: rev_induct) (auto simp: addEvent_def Let_def)

lemma processAll_grows:
  fixes ed :: "('a, 'c, 'v, 'r, 's) eventDispatcher"
  assumes "\<not> di_disabled ed" and "lru_inv (di_userKeys ed)"
  shows "\<exists>ed'. processAll C smp ed evts = Inr ed' \<and>
    set (ob_events (di_outbox ed)) \<subseteq> set (ob_events (di_outbox ed'))"
  using assms
proof (induction evts arbitrary: ed)
  case (Cons e evts)
  obtain now evt where e: "e = (now, evt)" by fastforce
  obtain uk where p: "processEvent C smp now ed evt = Inr (afterEvent C smp now ed evt uk)"
    and uk: "lru_inv uk"
    using processEvent_eq [OF Cons.prems] by blast
  let ?ed = "afterEvent C smp now ed evt uk"
  obtain ed' where "processAll C smp ?ed evts = Inr ed'"
    "set (ob_events (di_outbox ?ed)) \<subseteq> set (ob_events (di_outbox ed'))"
    using Cons.IH [of ?ed] Cons.prems(1) uk by auto
  moreover have "set (ob_events (di_outbox ed)) \<subseteq> set (ob_events (di_outbox ?ed))"
    using addEvent_grows [of "summarized C (di_outbox ed) evt"] by (simp add: afterEvent_def)
  ultimately show ?case using p e by auto
qed simp

text \<open>
  C35: Whatever the capacity of the cache (zero included), the first event of a run that refers to
  a context not known at its start is followed by its index event in the outbox, if the event is an
  evaluation or a custom event and the outbox has room for the run's output.
\<close>

theorem first_context_indexed:
  fixes ed :: "('a, 'c, 'v, 'r, 's) eventDispatcher"
  assumes "\<not> di_disabled ed" and "lru_inv (di_userKeys ed)" and "outbox_inv (di_outbox ed)"
    and "int (length (ob_events (di_outbox ed)) + 3 * length evts) \<le> ob_capacity (di_outbox ed)"
    and "i < length evts" and "contextBase (snd (evts ! i)) = Some b" and "\<not> isIdentify (snd (evts ! i))"
    and "baseKey C b \<notin> set (lru_keys (di_userKeys ed))"
    and "\<forall>j < i. baseKey C b \<notin> keysOf C (snd (evts ! j))"
  shows "\<exists>ed'. processAll C smp ed evts = Inr ed' \<and> Index b \<in> set (ob_events (di_outbox ed'))"
  using assms
proof (induction evts arbitrary: ed i)
  case (Cons e evts)
  obtain now evt where e: "e = (now, evt)" by fastforce
  obtain uk where p: "processEvent C smp now ed evt = Inr (afterEvent C smp now ed evt uk)"
    and uk: "lru_inv uk" "lru_keys uk =
      seenAfter C (lc_capacity (di_userKeys ed)) (lru_keys (di_userKeys ed)) evt"
    using processEvent_eq [OF Cons.prems(1,2)] by blast
  let ?ed = "afterEvent C smp now ed evt uk"
  note ev = afterEvent_events [OF Cons.prems(3), of C smp now evt uk]
  have es: "ob_events (di_outbox ?ed) = ob_events (di_outbox ed) @ fst (emissions C smp now ed evt)"
    using Cons.prems(4) by (intro ev(3)) simp
  have len: "length (fst (emissions C smp now ed evt)) \<le> 3" by (rule length_emissions)
  show ?case
  proof (cases i)
    case 0
    then have "indexEvents C (set (lru_keys (di_userKeys ed))) evt = [Index b]"
      using Cons.prems(6,7,8) e by (simp add: indexEvents_def)
    then have "Index b \<in> set (ob_events (di_outbox ?ed))"
      by (simp add: es emissions_def split_def Let_def)
    with processAll_grows [of ?ed C smp evts] Cons.prems(1) uk(1) p e show ?thesis by auto
  next
    case (Suc j)
    have "set (lru_keys uk) \<subseteq> set (lru_keys (di_userKeys ed)) \<union> keysOf C evt"
      by (auto simp: uk(2) seenAfter_def keysOf_def lru_spec_def split: option.splits if_splits
          dest: in_set_takeD)
    moreover have "baseKey C b \<notin> keysOf C evt" using Cons.prems(9) Suc e by force
    ultimately have "baseKey C b \<notin> set (lru_keys (di_userKeys ?ed))" using Cons.prems(8) by auto
    moreover have "\<forall>k < j. baseKey C b \<notin> keysOf C (snd (evts ! k))" using Cons.prems(9) Suc by force
    moreover have "int (length (ob_events (di_outbox ?ed)) + 3 * length evts) \<le> ob_capacity (di_outbox ?ed)"
      using Cons.prems(4) len ev(2) by (simp add: es)
    ultimately have "\<exists>ed'. processAll C smp ?ed evts = Inr ed' \<and> Index b \<in> set (ob_events (di_outbox ed'))"
      using Cons.IH [of ?ed j] Cons.prems(1,5,6,7) uk(1) ev(1) Suc by simp
    with p e show ?thesis by simp
  qed
qed simp

theorem first_context_indexed_witness:
  "\<exists>ed'. processAll sampleC sampleS sampleDispatcher [(0, Evaluation (sampleEval ''f'' 1 20))] = Inr ed' \<and>
     Index (ed_BaseEvent (sampleEval ''f'' 1 20)) \<in> set (ob_events (di_outbox ed'))"
proof -
  let ?es = "[(0, Evaluation (sampleEval ''f'' 1 20))] :: (millis \<times> (sctx, sval, string) anyEvent) list"
  have "int (length (ob_events (di_outbox sampleDispatcher)) + 3 * length ?es) \<le>
      ob_capacity (di_outbox sampleDispatcher)"
    by (simp add: sampleOutbox_def)
  from first_context_indexed [of sampleDispatcher ?es 0 "ed_BaseEvent (sampleEval ''f'' 1 20)" sampleC sampleS,
      OF _ _ _ this]
  show ?thesis by (simp add: lru_inv_new isIdentify_def del: processAll.simps)
qed

section \<open>Properties of flushing\<close>

definition pendingCount :: "('c, 'v, 'r) eventsOutbox \<Rightarrow> int" where
  "pendingCount b = int (length (ob_events b)) +
     (if hasCounters (eventsState (ob_summarizer b)) then 1 else 0)"

definition flushed ::
  "'v value_api \<Rightarrow> ('a, 'c, 'v, 'r, 's) eventDispatcher \<Rightarrow> ('a, 'c, 'v, 'r, 's) eventDispatcher" where
  "flushed V ed =
     ed\<lparr>di_workersGroup := di_workersGroup ed + 1,
        di_flushCh := (di_flushCh ed)\<lparr>ch_buf := ch_buf (di_flushCh ed) @ [getPayload V (di_outbox ed)]\<rparr>,
        di_eventsInLastBatch := pendingCount (di_outbox ed),
        di_outbox := outbox_clear (di_outbox ed)\<rparr>"

lemma triggerFlush_eq:
  assumes "\<not> ch_closed (di_flushCh ed)" and "0 \<le> di_workersGroup ed"
  shows "triggerFlush V ed = Inr
    (if di_disabled ed then ed
     else if pendingCount (di_outbox ed) = 0 then ed\<lparr>di_eventsInLastBatch := 0\<rparr>
     else if length (ch_buf (di_flushCh ed)) < ch_cap (di_flushCh ed) then flushed V ed
     else ed)"
  using assms
  by (simp add: triggerFlush_def pendingCount_def flushed_def chanSend_def Let_def)

lemma sendDiagnosticsEvent_eq:
  assumes "\<not> ch_closed (di_flushCh ed)" and "0 \<le> di_workersGroup ed"
  shows "sendDiagnosticsEvent ed event = Inr
    (if length (ch_buf (di_flushCh ed)) < ch_cap (di_flushCh ed)
     then ed\<lparr>di_workersGroup := di_workersGroup ed + 1,
             di_flushCh := (di_flushCh ed)\<lparr>ch_buf := ch_buf (di_flushCh ed) @ [diagnosticPayload event]\<rparr>\<rparr>
     else ed)"
  using assms by (simp add: sendDiagnosticsEvent_def chanSend_def)



text \<open>
  The intervals of the dispatcher's tickers are positive for every configuration, so that no
  ticker panics, and diagnostics are never more frequent than the minimum unless a test forces it.
\<close>

theorem ticker_intervals:
  "0 < flushInterval config \<and> 0 < userKeysFlushInterval config \<and>
   (case diagnosticsInterval config of
      None \<Rightarrow> \<not> cg_HasDiagnosticsManager config
    | Some i \<Rightarrow> if cg_DiagnosticRecordingInterval config \<le> 0 \<and>
                   0 < cg_forceDiagnosticRecordingInterval config
                then i = cg_forceDiagnosticRecordingInterval config
                else MinimumDiagnosticRecordingInterval \<le> i)"
  by (simp add: flushInterval_def userKeysFlushInterval_def diagnosticsInterval_def interval_defs Let_def)

end
