(* ===== verification/Event_Processor.thy ===== *)
theory Event_Processor
  imports Event_Dispatcher
begin

text \<open>
  The whole of \<open>event_processor.go\<close> as a system of goroutines: the callers of the API, the
  dispatcher's loop and the five flush workers, which interleave freely and meet at the inbox, at
  \<open>flushCh\<close>, at \<open>senderResultCh\<close> and at the wait group. Each action of a goroutine is a function on the
  state that answers \<open>None\<close> where the goroutine would have to wait; \<open>step\<close> is the relation of all
  actions. A handler of the dispatcher is one action: the variables it works on are its own, and
  its only communication is at most one send that never waits. The result of a call of the
  \<open>EventSender\<close> interface is arbitrary. A panic in any goroutine ends the program.
\<close>

section \<open>The state\<close>

text \<open>\<open>replyCh\<close> is the number of the call that waits for the reply, or absent.\<close>

datatype ('c, 'v, 'r) message =
    SendEvent "('c, 'v, 'r) anyEvent"
  | FlushEvents "nat option"
  | ShutdownEvents
  | SyncEvents nat

datatype ('c, 'v, 'r) dispatcherPc =
    AtSelect
  | Handling "('c, 'v, 'r) message"
  | WaitFlush nat
  | WaitSync nat
  | WaitShutdown
  | ReplyShutdown
  | Stopped

datatype ('c, 'v, 'r) worker =
    Idle
  | Working "('c, 'v, 'r) flushPayload"
  | Posting EventSenderResult
  | Finishing
  | Exited

text \<open>
  A blocking call: \<open>FlushBlocking\<close> with its timeout in nanoseconds, or the send of a
  \<open>syncEventsMessage\<close> (which only tests do).
\<close>

datatype callKind = FlushBlocking int | SyncCall
datatype callPc = CallSending | CallWaiting | CallReturned bool

text \<open>Where the goroutine is that runs the body of \<open>closeOnce\<close>.\<close>

datatype closePc = CloseIdle | CloseFlush | CloseShutdown | CloseWait | CloseReturned

text \<open>
  A call of \<open>SendEventData\<close>: the kind, the body, the count, the payload it came from, and the result.
  The fields \<open>sy_sent\<close>, \<open>sy_accepted\<close> and \<open>sy_discarded\<close> of the system are its history, which no action
  reads: the calls made, the events that entered the outbox, and those that were in it when the
  dispatcher was disabled.
\<close>

record ('c, 'v, 'r) delivery =
  dl_kind :: "EventDataKind"
  dl_body :: "('v, 'r) wcall list"
  dl_count :: "int"
  dl_payload :: "('c, 'v, 'r) flushPayload"
  dl_result :: "EventSenderResult"

record ('a, 'c, 'v, 'r, 's) system =
  sy_inbox :: "('c, 'v, 'r) message channel"
  sy_pc :: "('c, 'v, 'r) dispatcherPc"
  sy_ed :: "('a, 'c, 'v, 'r, 's) eventDispatcher"
  sy_mgr :: "'v DiagnosticsManager option"
  sy_workers :: "('c, 'v, 'r) worker list"
  sy_calls :: "(callKind \<times> callPc) list"
  sy_replied :: "nat list"
  sy_close :: "closePc"
  sy_inboxFullOnce :: "bool"
  sy_loggers :: "string list"
  sy_sent :: "('c, 'v, 'r) delivery list"
  sy_accepted :: "('c, 'v, 'r) anyEvent list"
  sy_discarded :: "('c, 'v, 'r) anyEvent list"
  sy_crash :: "panic option"

text \<open>The imported packages, and the fuel for the nesting of attribute values.\<close>

record ('a, 'c, 'v, 'r, 's) sdk =
  sk_V :: "'v value_api"
  sk_A :: "'a ref_api"
  sk_C :: "('c, 'v, 'a) context_api"
  sk_R :: "'r reason_api"
  sk_smp :: "'s sampler"
  sk_runtime :: "goRuntime"
  sk_fuel :: "nat"

definition NewDefaultEventProcessor ::
  "('a, 'c, 'v, 'r, 's) sdk \<Rightarrow> 'a EventsConfiguration \<Rightarrow> 's \<Rightarrow> 'v DiagnosticsManager option \<Rightarrow>
   ('a, 'c, 'v, 'r, 's) system go" where
  "NewDefaultEventProcessor k config sampler mgr =
     (if cg_Capacity config < 0 then Inl MakeNegativeCap
      else go_bind (startEventDispatcher (sk_V k) (sk_runtime k) config sampler mgr) (\<lambda>ed.
        Inr \<lparr>sy_inbox = makeChan (nat (cg_Capacity config)), sy_pc = AtSelect, sy_ed = ed,
             sy_mgr = mgr, sy_workers = replicate maxFlushWorkers Idle, sy_calls = [],
             sy_replied = [], sy_close = CloseIdle, sy_inboxFullOnce = False, sy_loggers = [],
             sy_sent = [], sy_accepted = [], sy_discarded = [], sy_crash = None\<rparr>))"

section \<open>The API\<close>

definition RecordEvaluation :: "('c, 'v, 'r) EvaluationData \<Rightarrow> ('c, 'v, 'r) message" where
  "RecordEvaluation ed = SendEvent (Evaluation ed)"

definition RecordIdentifyEvent :: "'c IdentifyEventData \<Rightarrow> ('c, 'v, 'r) message" where
  "RecordIdentifyEvent e = SendEvent (Identify e)"

definition RecordCustomEvent :: "('c, 'v) CustomEventData \<Rightarrow> ('c, 'v, 'r) message" where
  "RecordCustomEvent e = SendEvent (Custom e)"

definition RecordMigrationOpEvent :: "('c, 'v, 'r) MigrationOpEventData \<Rightarrow> ('c, 'v, 'r) message" where
  "RecordMigrationOpEvent e = SendEvent (MigrationOp e)"

definition RecordRawEvent :: "bytes \<Rightarrow> ('c, 'v, 'r) message" where
  "RecordRawEvent data = SendEvent (RawEvent data)"

definition Flush :: "('c, 'v, 'r) message" where
  "Flush = FlushEvents None"

text \<open>The messages the non-blocking methods post.\<close>

fun recordable :: "('c, 'v, 'r) message \<Rightarrow> bool" where
  "recordable (SendEvent evt) \<longleftrightarrow> \<not> isIndex evt"
| "recordable (FlushEvents r) \<longleftrightarrow> r = None"
| "recordable _ \<longleftrightarrow> False"

text \<open>
  A send to the inbox: into the buffer, or, if the channel has none, to the dispatcher that waits
  in its \<open>select\<close>. \<open>None\<close>: it cannot proceed.
\<close>

definition enqueue ::
  "('c, 'v, 'r) message \<Rightarrow> ('a, 'c, 'v, 'r, 's) system \<Rightarrow> ('a, 'c, 'v, 'r, 's) system option" where
  "enqueue m s =
     (case chanSend (sy_inbox s) m of
        Inl _ \<Rightarrow> None
      | Inr (Some ch) \<Rightarrow> Some (s\<lparr>sy_inbox := ch\<rparr>)
      | Inr None \<Rightarrow> if ch_cap (sy_inbox s) = 0 \<and> sy_pc s = AtSelect
                    then Some (s\<lparr>sy_pc := Handling m\<rparr>) else None)"

definition inboxFullMessage :: "string" where
  "inboxFullMessage =
     ''Events are being produced faster than they can be processed; some events will be dropped''"

text \<open>
  \<open>postNonBlockingMessageToInbox\<close>: the send, or the \<open>default\<close> case, which drops the message. With an
  unbuffered inbox the dispatcher may not have reached its \<open>select\<close> yet, so either can happen.
\<close>

definition postNonBlocking ::
  "bool \<Rightarrow> ('c, 'v, 'r) message \<Rightarrow> ('a, 'c, 'v, 'r, 's) system \<Rightarrow> ('a, 'c, 'v, 'r, 's) system option" where
  "postNonBlocking ready m s =
     (if ready then enqueue m s
      else if ch_cap (sy_inbox s) \<le> length (ch_buf (sy_inbox s)) then
        Some (if sy_inboxFullOnce s then s
              else s\<lparr>sy_inboxFullOnce := True, sy_loggers := sy_loggers s @ [inboxFullMessage]\<rparr>)
      else None)"

text \<open>The blocking calls: begin, send, receive the reply, time out.\<close>

definition callBegin ::
  "callKind \<Rightarrow> ('a, 'c, 'v, 'r, 's) system \<Rightarrow> ('a, 'c, 'v, 'r, 's) system option" where
  "callBegin k s = Some (s\<lparr>sy_calls := sy_calls s @ [(k, CallSending)]\<rparr>)"

definition callSend ::
  "nat \<Rightarrow> ('a, 'c, 'v, 'r, 's) system \<Rightarrow> ('a, 'c, 'v, 'r, 's) system option" where
  "callSend i s =
     (if i < length (sy_calls s) then
        (case sy_calls s ! i of
           (k, CallSending) \<Rightarrow>
             enqueue (case k of FlushBlocking _ \<Rightarrow> FlushEvents (Some i) | SyncCall \<Rightarrow> SyncEvents i)
               (s\<lparr>sy_calls := (sy_calls s)[i := (k, CallWaiting)]\<rparr>)
         | _ \<Rightarrow> None)
      else None)"

definition callReturn ::
  "nat \<Rightarrow> ('a, 'c, 'v, 'r, 's) system \<Rightarrow> ('a, 'c, 'v, 'r, 's) system option" where
  "callReturn i s =
     (if i < length (sy_calls s) \<and> i \<in> set (sy_replied s) then
        (case sy_calls s ! i of
           (k, CallWaiting) \<Rightarrow> Some (s\<lparr>sy_calls := (sy_calls s)[i := (k, CallReturned True)]\<rparr>)
         | _ \<Rightarrow> None)
      else None)"

definition callTimeout ::
  "nat \<Rightarrow> ('a, 'c, 'v, 'r, 's) system \<Rightarrow> ('a, 'c, 'v, 'r, 's) system option" where
  "callTimeout i s =
     (if i < length (sy_calls s) then
        (case sy_calls s ! i of
           (FlushBlocking timeout, CallWaiting) \<Rightarrow>
             if timeout > 0
             then Some (s\<lparr>sy_calls := (sy_calls s)[i := (FlushBlocking timeout, CallReturned False)]\<rparr>)
             else None
         | _ \<Rightarrow> None)
      else None)"

text \<open>The body of \<open>Close\<close>, which \<open>closeOnce\<close> runs once: two blocking sends and a receive.\<close>

definition closeStep ::
  "('a, 'c, 'v, 'r, 's) system \<Rightarrow> ('a, 'c, 'v, 'r, 's) system option" where
  "closeStep s =
     (case sy_close s of
        CloseIdle \<Rightarrow> Some (s\<lparr>sy_close := CloseFlush\<rparr>)
      | CloseFlush \<Rightarrow> enqueue (FlushEvents None) (s\<lparr>sy_close := CloseShutdown\<rparr>)
      | CloseShutdown \<Rightarrow> enqueue ShutdownEvents (s\<lparr>sy_close := CloseWait\<rparr>)
      | _ \<Rightarrow> None)"

section \<open>The dispatcher's loop\<close>

definition receiveMessage ::
  "('a, 'c, 'v, 'r, 's) system \<Rightarrow> ('a, 'c, 'v, 'r, 's) system option" where
  "receiveMessage s =
     (if sy_pc s = AtSelect then
        (case chanRecv (sy_inbox s) of
           Received m ch \<Rightarrow> Some (s\<lparr>sy_inbox := ch, sy_pc := Handling m\<rparr>)
         | _ \<Rightarrow> None)
      else None)"

text \<open>What a panic in a goroutine does to the program.\<close>

definition orCrash ::
  "('a, 'c, 'v, 'r, 's) system \<Rightarrow> ('a, 'c, 'v, 'r, 's) system go \<Rightarrow> ('a, 'c, 'v, 'r, 's) system" where
  "orCrash s r = (case r of Inl p \<Rightarrow> s\<lparr>sy_crash := Some p\<rparr> | Inr s' \<Rightarrow> s')"

text \<open>The history of the outbox, from its contents before and after.\<close>

definition outboxEvents :: "('a, 'c, 'v, 'r, 's) eventDispatcher \<Rightarrow> ('c, 'v, 'r) anyEvent list" where
  "outboxEvents ed = ob_events (di_outbox ed)"

definition recordAccepted ::
  "('a, 'c, 'v, 'r, 's) eventDispatcher \<Rightarrow> ('a, 'c, 'v, 'r, 's) eventDispatcher \<Rightarrow>
   ('a, 'c, 'v, 'r, 's) system \<Rightarrow> ('a, 'c, 'v, 'r, 's) system" where
  "recordAccepted ed ed' s =
     s\<lparr>sy_accepted := sy_accepted s @ drop (length (outboxEvents ed)) (outboxEvents ed')\<rparr>"

definition recordDiscarded ::
  "('a, 'c, 'v, 'r, 's) eventDispatcher \<Rightarrow> ('a, 'c, 'v, 'r, 's) eventDispatcher \<Rightarrow>
   ('a, 'c, 'v, 'r, 's) system \<Rightarrow> ('a, 'c, 'v, 'r, 's) system" where
  "recordDiscarded ed ed' s =
     s\<lparr>sy_discarded := sy_discarded s @ drop (length (outboxEvents ed')) (outboxEvents ed)\<rparr>"

definition handleMessage ::
  "('a, 'c, 'v, 'r, 's) sdk \<Rightarrow> millis \<Rightarrow> ('a, 'c, 'v, 'r, 's) system \<Rightarrow>
   ('a, 'c, 'v, 'r, 's) system option" where
  "handleMessage k now s =
     (case sy_pc s of
        Handling (SendEvent evt) \<Rightarrow>
          Some (orCrash s (go_bind (processEvent (sk_C k) (sk_smp k) now (sy_ed s) evt) (\<lambda>ed.
            Inr (recordAccepted (sy_ed s) ed (s\<lparr>sy_ed := ed, sy_pc := AtSelect\<rparr>)))))
      | Handling (FlushEvents replyCh) \<Rightarrow>
          Some (orCrash s (go_bind (triggerFlush (sk_V k) (sy_ed s)) (\<lambda>ed.
            Inr (s\<lparr>sy_ed := ed,
                   sy_pc := (case replyCh of None \<Rightarrow> AtSelect | Some i \<Rightarrow> WaitFlush i)\<rparr>))))
      | Handling (SyncEvents i) \<Rightarrow> Some (s\<lparr>sy_pc := WaitSync i\<rparr>)
      | Handling ShutdownEvents \<Rightarrow> Some (s\<lparr>sy_pc := WaitShutdown\<rparr>)
      | _ \<Rightarrow> None)"

text \<open>\<open>workersGroup.Wait()\<close> returns when the count is zero; then the rest of the message's case.\<close>

definition waitReturns ::
  "('a, 'c, 'v, 'r, 's) system \<Rightarrow> ('a, 'c, 'v, 'r, 's) system option" where
  "waitReturns s =
     (if di_workersGroup (sy_ed s) \<noteq> 0 then None
      else case sy_pc s of
        WaitFlush i \<Rightarrow> Some (s\<lparr>sy_replied := i # sy_replied s, sy_pc := AtSelect\<rparr>)
      | WaitSync i \<Rightarrow> Some (s\<lparr>sy_replied := i # sy_replied s, sy_pc := AtSelect\<rparr>)
      | WaitShutdown \<Rightarrow>
          Some (s\<lparr>sy_ed := (sy_ed s)\<lparr>di_flushCh := chanClose (di_flushCh (sy_ed s)),
                                     di_senderResultCh := chanClose (di_senderResultCh (sy_ed s))\<rparr>,
                  sy_pc := ReplyShutdown\<rparr>)
      | _ \<Rightarrow> None)"

definition shutdownReply ::
  "('a, 'c, 'v, 'r, 's) system \<Rightarrow> ('a, 'c, 'v, 'r, 's) system option" where
  "shutdownReply s =
     (if sy_pc s = ReplyShutdown \<and> sy_close s = CloseWait
      then Some (s\<lparr>sy_pc := Stopped, sy_close := CloseReturned\<rparr>) else None)"

definition receiveResult ::
  "('a, 'c, 'v, 'r, 's) system \<Rightarrow> ('a, 'c, 'v, 'r, 's) system option" where
  "receiveResult s =
     (if sy_pc s = AtSelect then
        (case chanRecv (di_senderResultCh (sy_ed s)) of
           Received r ch \<Rightarrow>
             (let ed = handleResult ((sy_ed s)\<lparr>di_senderResultCh := ch\<rparr>) r
              in Some (recordDiscarded (sy_ed s) ed (s\<lparr>sy_ed := ed\<rparr>)))
         | NoMore \<Rightarrow>
             (let ed = handleResult (sy_ed s) zeroResult
              in Some (recordDiscarded (sy_ed s) ed (s\<lparr>sy_ed := ed\<rparr>)))
         | Blocked \<Rightarrow> None)
      else None)"

datatype tick = FlushTick | UsersResetTick | DiagnosticsTick millis

definition tickStep ::
  "('a, 'c, 'v, 'r, 's) sdk \<Rightarrow> tick \<Rightarrow> ('a, 'c, 'v, 'r, 's) system \<Rightarrow>
   ('a, 'c, 'v, 'r, 's) system option" where
  "tickStep k t s =
     (if sy_pc s \<noteq> AtSelect then None
      else Some (case t of
          FlushTick \<Rightarrow>
            orCrash s (go_bind (triggerFlush (sk_V k) (sy_ed s)) (\<lambda>ed. Inr (s\<lparr>sy_ed := ed\<rparr>)))
        | UsersResetTick \<Rightarrow> s\<lparr>sy_ed := usersResetTick (sy_ed s)\<rparr>
        | DiagnosticsTick now \<Rightarrow>
            orCrash s (go_bind (diagnosticsTick (sk_V k) now (sy_ed s) (sy_mgr s)) (\<lambda>(ed, mgr).
              Inr (s\<lparr>sy_ed := ed, sy_mgr := mgr\<rparr>)))))"

section \<open>The flush workers\<close>

definition setWorker ::
  "nat \<Rightarrow> ('c, 'v, 'r) worker \<Rightarrow> ('a, 'c, 'v, 'r, 's) system \<Rightarrow> ('a, 'c, 'v, 'r, 's) system" where
  "setWorker i w s = s\<lparr>sy_workers := (sy_workers s)[i := w]\<rparr>"

definition workerTake ::
  "nat \<Rightarrow> ('a, 'c, 'v, 'r, 's) system \<Rightarrow> ('a, 'c, 'v, 'r, 's) system option" where
  "workerTake i s =
     (if i < length (sy_workers s) \<and> sy_workers s ! i = Idle then
        (case chanRecv (di_flushCh (sy_ed s)) of
           Received p ch \<Rightarrow> Some (setWorker i (Working p) (s\<lparr>sy_ed := (sy_ed s)\<lparr>di_flushCh := ch\<rparr>\<rparr>))
         | NoMore \<Rightarrow> Some (setWorker i Exited s)
         | Blocked \<Rightarrow> None)
      else None)"

text \<open>
  Formatting and sending; \<open>result\<close> is what \<open>SendEventData\<close> returns. The bytes of a body are not
  empty if anything was written.
\<close>

definition outputOf ::
  "('a, 'c, 'v, 'r, 's) sdk \<Rightarrow> 'a EventsConfiguration \<Rightarrow> ('c, 'v, 'r) flushPayload \<Rightarrow>
   (('v, 'r) wcall list option \<times> int) option" where
  "outputOf k config p =
     makeOutputEvents (sk_fuel k) (sk_V k) (sk_A k) (sk_C k) (sk_R k)
       (newEventContextFormatter (sk_A k) (cg_AllAttributesPrivate config) (cg_PrivateAttributes config))
       (fl_events p) (fl_summary p)"

definition workerSend ::
  "('a, 'c, 'v, 'r, 's) sdk \<Rightarrow> nat \<Rightarrow> EventSenderResult \<Rightarrow> ('a, 'c, 'v, 'r, 's) system \<Rightarrow>
   ('a, 'c, 'v, 'r, 's) system option" where
  "workerSend k i result s =
     (if i < length (sy_workers s) then
        (case sy_workers s ! i of
           Working p \<Rightarrow>
             (if \<not> v_isNull (sk_V k) (fl_diagnosticEvent p) then
                Some (setWorker i Finishing (s\<lparr>sy_sent := sy_sent s @
                  [\<lparr>dl_kind = DiagnosticEventDataKind, dl_body = [WValue (fl_diagnosticEvent p)],
                    dl_count = 1, dl_payload = p, dl_result = result\<rparr>]\<rparr>))
              else case outputOf k (di_config (sy_ed s)) p of
                None \<Rightarrow> None
              | Some (None, n) \<Rightarrow> Some (setWorker i Finishing s)
              | Some (Some body, n) \<Rightarrow>
                  Some (setWorker i (Posting result) (s\<lparr>sy_sent := sy_sent s @
                    [\<lparr>dl_kind = AnalyticsEventDataKind, dl_body = body, dl_count = n,
                      dl_payload = p, dl_result = result\<rparr>]\<rparr>)))
         | _ \<Rightarrow> None)
      else None)"

definition workerPost ::
  "nat \<Rightarrow> ('a, 'c, 'v, 'r, 's) system \<Rightarrow> ('a, 'c, 'v, 'r, 's) system option" where
  "workerPost i s =
     (if i < length (sy_workers s) then
        (case sy_workers s ! i of
           Posting result \<Rightarrow>
             (case chanSend (di_senderResultCh (sy_ed s)) result of
                Inl p \<Rightarrow> Some (s\<lparr>sy_crash := Some p\<rparr>)
              | Inr None \<Rightarrow> None
              | Inr (Some ch) \<Rightarrow>
                  Some (setWorker i Finishing (s\<lparr>sy_ed := (sy_ed s)\<lparr>di_senderResultCh := ch\<rparr>\<rparr>)))
         | _ \<Rightarrow> None)
      else None)"

definition workerDone ::
  "nat \<Rightarrow> ('a, 'c, 'v, 'r, 's) system \<Rightarrow> ('a, 'c, 'v, 'r, 's) system option" where
  "workerDone i s =
     (if i < length (sy_workers s) \<and> sy_workers s ! i = Finishing then
        Some (orCrash s (go_bind (wg_Done (di_workersGroup (sy_ed s))) (\<lambda>wg.
          Inr (setWorker i Idle (s\<lparr>sy_ed := (sy_ed s)\<lparr>di_workersGroup := wg\<rparr>\<rparr>)))))
      else None)"

section \<open>The system\<close>

datatype ('c, 'v, 'r) label =
    LPost bool "('c, 'v, 'r) message"
  | LCallBegin callKind
  | LCallSend nat
  | LCallReturn nat
  | LCallTimeout nat
  | LClose
  | LStreamInit diagnosticStreamInitInfo
  | LReceive
  | LHandle millis
  | LWait
  | LShutdownReply
  | LResult
  | LTick tick
  | LTake nat
  | LWorkerSend nat EventSenderResult
  | LWorkerPost nat
  | LWorkerDone nat

fun act ::
  "('a, 'c, 'v, 'r, 's) sdk \<Rightarrow> ('c, 'v, 'r) label \<Rightarrow> ('a, 'c, 'v, 'r, 's) system \<Rightarrow>
   ('a, 'c, 'v, 'r, 's) system option" where
  "act k (LPost ready m) s = (if recordable m then postNonBlocking ready m s else None)"
| "act k (LCallBegin kind) s = callBegin kind s"
| "act k (LCallSend i) s = callSend i s"
| "act k (LCallReturn i) s = callReturn i s"
| "act k (LCallTimeout i) s = callTimeout i s"
| "act k LClose s = closeStep s"
| "act k (LStreamInit si) s =
     Some (s\<lparr>sy_mgr := map_option (\<lambda>m. RecordStreamInit m (si_timestamp si) (si_failed si)
       (si_durationMillis si)) (sy_mgr s)\<rparr>)"
| "act k LReceive s = receiveMessage s"
| "act k (LHandle now) s = handleMessage k now s"
| "act k LWait s = waitReturns s"
| "act k LShutdownReply s = shutdownReply s"
| "act k LResult s = receiveResult s"
| "act k (LTick t) s = tickStep k t s"
| "act k (LTake i) s = workerTake i s"
| "act k (LWorkerSend i r) s = workerSend k i r s"
| "act k (LWorkerPost i) s = workerPost i s"
| "act k (LWorkerDone i) s = workerDone i s"

text \<open>A step of the system is an action of one of its goroutines, while none has panicked.\<close>

inductive step ::
  "('a, 'c, 'v, 'r, 's) sdk \<Rightarrow> ('c, 'v, 'r) label \<Rightarrow> ('a, 'c, 'v, 'r, 's) system \<Rightarrow>
   ('a, 'c, 'v, 'r, 's) system \<Rightarrow> bool" for k where
  step_act: "sy_crash s = None \<Longrightarrow> act k l s = Some s' \<Longrightarrow> step k l s s'"

inductive_cases stepE [elim]: "step k l s s'"
inductive_simps step_iff: "step k l s s'"

inductive steps ::
  "('a, 'c, 'v, 'r, 's) sdk \<Rightarrow> ('c, 'v, 'r) label list \<Rightarrow> ('a, 'c, 'v, 'r, 's) system \<Rightarrow>
   ('a, 'c, 'v, 'r, 's) system \<Rightarrow> bool" for k where
  steps_Nil: "steps k [] s s"
| steps_snoc: "steps k ls s s' \<Longrightarrow> step k l s' s'' \<Longrightarrow> steps k (ls @ [l]) s s''"

inductive reachable ::
  "('a, 'c, 'v, 'r, 's) sdk \<Rightarrow> 'a EventsConfiguration \<Rightarrow> 's \<Rightarrow> 'v DiagnosticsManager option \<Rightarrow>
   ('a, 'c, 'v, 'r, 's) system \<Rightarrow> bool" for k config sampler mgr where
  reachable_start: "NewDefaultEventProcessor k config sampler mgr = Inr s \<Longrightarrow>
    reachable k config sampler mgr s"
| reachable_step: "reachable k config sampler mgr s \<Longrightarrow> step k l s s' \<Longrightarrow>
    reachable k config sampler mgr s'"

text \<open>An executable run, for concrete traces.\<close>

fun run ::
  "('a, 'c, 'v, 'r, 's) sdk \<Rightarrow> ('c, 'v, 'r) label list \<Rightarrow> ('a, 'c, 'v, 'r, 's) system \<Rightarrow>
   ('a, 'c, 'v, 'r, 's) system option" where
  "run k [] s = Some s"
| "run k (l # ls) s =
     (if sy_crash s = None then (case act k l s of None \<Rightarrow> None | Some s' \<Rightarrow> run k ls s') else None)"

lemma run_reachable:
  "reachable k config sampler mgr s \<Longrightarrow> run k ls s = Some s' \<Longrightarrow> reachable k config sampler mgr s'"
proof (induction ls arbitrary: s)
  case (Cons l ls)
  then obtain s1 where "sy_crash s = None" "act k l s = Some s1" "run k ls s1 = Some s'"
    by (auto split: if_splits option.splits)
  then show ?case using Cons.IH [of s1] Cons.prems(1) by (blast intro: reachable_step step_act)
qed simp

end
