(* ===== verification/Processor_Invariants.thy ===== *)
theory Processor_Invariants
  imports Event_Processor
begin

text \<open>
  The invariants of the system of goroutines: the dispatcher's own state, the synchronisation (wait
  group, channels, workers), the shutdown protocol, and the conservation of events. Each is shown to
  be kept by every action; together they hold in every reachable state.
\<close>

section \<open>The dispatcher's own state\<close>

definition disp_ok :: "('a, 'c, 'v, 'r, 's) eventDispatcher \<Rightarrow> bool" where
  "disp_ok ed \<longleftrightarrow> outbox_inv (di_outbox ed) \<and> lru_inv (di_userKeys ed) \<and>
     (di_disabled ed \<longrightarrow> pendingCount (di_outbox ed) = 0)"

lemma pendingCount_0: "pendingCount b = 0 \<longleftrightarrow> ob_events b = [] \<and> \<not> hasCounters (eventsState (ob_summarizer b))"
  by (auto simp: pendingCount_def)

lemma pendingCount_clear [simp]: "pendingCount (outbox_clear b) = 0"
  by (simp add: pendingCount_0)

lemma pendingCount_dropped [simp]: "pendingCount (b\<lparr>ob_droppedEvents := n\<rparr>) = pendingCount b"
  by (simp add: pendingCount_def)

lemma outbox_inv_dropped [simp]: "outbox_inv (b\<lparr>ob_droppedEvents := n\<rparr>) = outbox_inv b"
  by (simp add: outbox_inv_def)

text \<open>
  What a handler may do to the part of the state it shares with the workers: put at most one payload
  into the flush channel, and count it.
\<close>

definition sync_frame ::
  "('a, 'c, 'v, 'r, 's) eventDispatcher \<Rightarrow> ('a, 'c, 'v, 'r, 's) eventDispatcher \<Rightarrow> bool" where
  "sync_frame ed ed' \<longleftrightarrow>
     di_senderResultCh ed' = di_senderResultCh ed \<and>
     di_config ed' = di_config ed \<and>
     ch_cap (di_flushCh ed') = ch_cap (di_flushCh ed) \<and>
     ch_closed (di_flushCh ed') = ch_closed (di_flushCh ed) \<and>
     (chan_ok (di_flushCh ed) \<longrightarrow> chan_ok (di_flushCh ed')) \<and>
     (di_disabled ed \<longrightarrow> di_disabled ed') \<and>
     di_workersGroup ed' - int (length (ch_buf (di_flushCh ed'))) =
       di_workersGroup ed - int (length (ch_buf (di_flushCh ed)))"

text \<open>The events in the payloads that wait in the flush channel.\<close>

definition queuedEvents :: "('a, 'c, 'v, 'r, 's) eventDispatcher \<Rightarrow> ('c, 'v, 'r) anyEvent list" where
  "queuedEvents ed = concat (map fl_events (ch_buf (di_flushCh ed)))"

lemma sync_frame_refl [simp]: "sync_frame ed ed"
  by (simp add: sync_frame_def)

lemma addEvent_appends: "\<exists>es'. ob_events (foldl addEvent b es) = ob_events b @ es'"
proof (induction es rule: rev_induct)
  case (snoc e es)
  then show ?case by (auto simp: addEvent_def Let_def)
qed simp

lemma processEvent_ok:
  assumes "disp_ok ed"
  shows "\<exists>ed'. processEvent C smp now ed evt = Inr ed' \<and> disp_ok ed' \<and> sync_frame ed ed' \<and>
    di_flushCh ed' = di_flushCh ed \<and> (\<exists>es. outboxEvents ed' = outboxEvents ed @ es) \<and>
    (di_disabled ed \<longrightarrow> ed' = ed)"
proof (cases "di_disabled ed")
  case True
  then show ?thesis using assms by (simp add: processEvent_disabled)
next
  case False
  have ob: "outbox_inv (di_outbox ed)" and lru: "lru_inv (di_userKeys ed)"
    using assms by (simp_all add: disp_ok_def)
  obtain uk where p: "processEvent C smp now ed evt = Inr (afterEvent C smp now ed evt uk)" "lru_inv uk"
    using processEvent_eq [OF False lru] by blast
  let ?ed = "afterEvent C smp now ed evt uk"
  have g: "\<exists>es'. outboxEvents ?ed = outboxEvents ed @ es'"
    using addEvent_appends [of "summarized C (di_outbox ed) evt" "fst (emissions C smp now ed evt)"]
    by (simp add: outboxEvents_def afterEvent_def)
  have "disp_ok ?ed" "sync_frame ed ?ed"
    using ob lru p(2) False afterEvent_events(1) [OF ob] by (simp_all add: disp_ok_def sync_frame_def)
  then show ?thesis using p(1) g False by simp
qed

lemma triggerFlush_ok:
  assumes "disp_ok ed" and "\<not> ch_closed (di_flushCh ed)" and "0 \<le> di_workersGroup ed"
  shows "\<exists>ed'. triggerFlush V ed = Inr ed' \<and> disp_ok ed' \<and> sync_frame ed ed' \<and>
    queuedEvents ed' @ outboxEvents ed' = queuedEvents ed @ outboxEvents ed"
  using assms
  by (auto simp: triggerFlush_eq flushed_def disp_ok_def sync_frame_def chan_ok_def outbox_inv_clear
      queuedEvents_def outboxEvents_def)

lemma handleResult_ok:
  "disp_ok ed \<Longrightarrow> disp_ok (handleResult ed r) \<and> sync_frame ed (handleResult ed r) \<and>
     di_flushCh (handleResult ed r) = di_flushCh ed"
  by (auto simp: handleResult_def disp_ok_def sync_frame_def outbox_inv_clear)

lemma usersResetTick_ok: "disp_ok ed \<Longrightarrow> disp_ok (usersResetTick ed) \<and> sync_frame ed (usersResetTick ed)"
  by (simp add: usersResetTick_def disp_ok_def sync_frame_def lru_inv_clear)

lemma diagnosticsTick_ok:
  assumes "disp_ok ed" and "\<not> ch_closed (di_flushCh ed)" and "0 \<le> di_workersGroup ed"
  shows "\<exists>ed' mgr'. diagnosticsTick V now ed mgr = Inr (ed', mgr') \<and> disp_ok ed' \<and> sync_frame ed ed' \<and>
    outboxEvents ed' = outboxEvents ed \<and> queuedEvents ed' = queuedEvents ed"
proof (cases mgr)
  case None
  with assms(1) show ?thesis by (simp add: diagnosticsTick_def)
next
  case (Some m)
  obtain can m' where c: "CanSendStatsEvent m = (can, m')" by fastforce
  show ?thesis
  proof (cases can)
    case False
    with Some c assms(1) show ?thesis by (simp add: diagnosticsTick_def)
  next
    case True
    let ?ed = "ed\<lparr>di_outbox := (di_outbox ed)\<lparr>ob_droppedEvents := 0\<rparr>, di_deduplicatedContexts := 0,
      di_eventsInLastBatch := 0\<rparr>"
    have i: "\<not> ch_closed (di_flushCh ?ed)" "0 \<le> di_workersGroup ?ed" using assms by simp_all
    show ?thesis
      using Some c True assms
      by (auto simp: diagnosticsTick_def CreateStatsEventAndReset_def Let_def
          sendDiagnosticsEvent_eq [OF i] disp_ok_def sync_frame_def chan_ok_def outboxEvents_def
          queuedEvents_def diagnosticPayload_def)
  qed
qed

section \<open>Synchronisation\<close>

fun busy :: "('c, 'v, 'r) worker \<Rightarrow> bool" where
  "busy Idle \<longleftrightarrow> False"
| "busy (Working _) \<longleftrightarrow> True"
| "busy (Posting _) \<longleftrightarrow> True"
| "busy Finishing \<longleftrightarrow> True"
| "busy Exited \<longleftrightarrow> False"

definition busyCount :: "('c, 'v, 'r) worker list \<Rightarrow> nat" where
  "busyCount ws = length (filter busy ws)"

fun afterClose :: "('c, 'v, 'r) dispatcherPc \<Rightarrow> bool" where
  "afterClose ReplyShutdown \<longleftrightarrow> True"
| "afterClose Stopped \<longleftrightarrow> True"
| "afterClose _ \<longleftrightarrow> False"

definition shared_ok ::
  "('a, 'c, 'v, 'r, 's) eventDispatcher \<Rightarrow> ('c, 'v, 'r) worker list \<Rightarrow> bool \<Rightarrow> bool" where
  "shared_ok ed ws closed \<longleftrightarrow>
     length ws = maxFlushWorkers \<and>
     di_workersGroup ed = int (length (ch_buf (di_flushCh ed)) + busyCount ws) \<and>
     ch_cap (di_flushCh ed) = 1 \<and> chan_ok (di_flushCh ed) \<and>
     ch_cap (di_senderResultCh ed) = maxFlushWorkers \<and> chan_ok (di_senderResultCh ed) \<and>
     ch_closed (di_flushCh ed) = closed \<and> ch_closed (di_senderResultCh ed) = closed \<and>
     (closed \<longrightarrow> di_workersGroup ed = 0) \<and> (Exited \<in> set ws \<longrightarrow> closed)"

definition sync_inv :: "('a, 'c, 'v, 'r, 's) system \<Rightarrow> bool" where
  "sync_inv s \<longleftrightarrow> sy_crash s = None \<and> disp_ok (sy_ed s) \<and>
     shared_ok (sy_ed s) (sy_workers s) (afterClose (sy_pc s)) \<and>
     chan_ok (sy_inbox s) \<and> \<not> ch_closed (sy_inbox s)"

lemma busyCount_upd:
  "i < length ws \<Longrightarrow>
     busyCount (ws[i := w]) + (if busy (ws ! i) then 1 else 0) = busyCount ws + (if busy w then 1 else 0)"
  using length_filter_upd [of i ws busy w] by (simp add: busyCount_def)

lemma shared_ok_frame:
  "shared_ok ed ws False \<Longrightarrow> sync_frame ed ed' \<Longrightarrow> shared_ok ed' ws False"
  by (auto simp: shared_ok_def sync_frame_def)

lemma shared_ok_open:
  "shared_ok ed ws False \<Longrightarrow> \<not> ch_closed (di_flushCh ed) \<and> 0 \<le> di_workersGroup ed"
  by (simp add: shared_ok_def)

lemma chan_ok_simps [simp]:
  "chan_ok (makeChan n)" "chan_ok (chanClose ch) = chan_ok ch"
  by (simp_all add: chan_ok_def)

text \<open>The cases of the actions.\<close>

lemma enqueueE:
  assumes "enqueue m s = Some s'" and "\<not> ch_closed (sy_inbox s)"
  obtains (buffered) "length (ch_buf (sy_inbox s)) < ch_cap (sy_inbox s)"
      "s' = s\<lparr>sy_inbox := (sy_inbox s)\<lparr>ch_buf := ch_buf (sy_inbox s) @ [m]\<rparr>\<rparr>"
    | (handed) "ch_cap (sy_inbox s) = 0" "sy_pc s = AtSelect" "s' = s\<lparr>sy_pc := Handling m\<rparr>"
  using assms by (auto simp: enqueue_def chanSend_def split: if_splits)

lemma callSendE:
  assumes "callSend i s = Some s'"
  obtains k where "i < length (sy_calls s)" "sy_calls s ! i = (k, CallSending)"
    "enqueue (case k of FlushBlocking _ \<Rightarrow> FlushEvents (Some i) | SyncCall \<Rightarrow> SyncEvents i)
      (s\<lparr>sy_calls := (sy_calls s)[i := (k, CallWaiting)]\<rparr>) = Some s'"
  using assms by (auto simp: callSend_def split: if_splits prod.splits callPc.splits)

lemma callReturnE:
  assumes "callReturn i s = Some s'"
  obtains k where "i < length (sy_calls s)" "i \<in> set (sy_replied s)" "sy_calls s ! i = (k, CallWaiting)"
    "s' = s\<lparr>sy_calls := (sy_calls s)[i := (k, CallReturned True)]\<rparr>"
  using assms by (auto simp: callReturn_def split: if_splits prod.splits callPc.splits)

lemma callTimeoutE:
  assumes "callTimeout i s = Some s'"
  obtains d where "i < length (sy_calls s)" "0 < d" "sy_calls s ! i = (FlushBlocking d, CallWaiting)"
    "s' = s\<lparr>sy_calls := (sy_calls s)[i := (FlushBlocking d, CallReturned False)]\<rparr>"
  using assms
  by (auto simp: callTimeout_def split: if_splits prod.splits callPc.splits callKind.splits)

lemma closeStepE:
  assumes "closeStep s = Some s'"
  obtains (starts) "sy_close s = CloseIdle" "s' = s\<lparr>sy_close := CloseFlush\<rparr>"
    | (flush) "sy_close s = CloseFlush" "enqueue (FlushEvents None) (s\<lparr>sy_close := CloseShutdown\<rparr>) = Some s'"
    | (shutdown) "sy_close s = CloseShutdown" "enqueue ShutdownEvents (s\<lparr>sy_close := CloseWait\<rparr>) = Some s'"
  using assms by (auto simp: closeStep_def split: closePc.splits)

lemma receiveMessageE:
  assumes "receiveMessage s = Some s'"
  obtains m ms where "sy_pc s = AtSelect" "ch_buf (sy_inbox s) = m # ms"
    "s' = s\<lparr>sy_inbox := (sy_inbox s)\<lparr>ch_buf := ms\<rparr>, sy_pc := Handling m\<rparr>"
  using assms by (auto simp: receiveMessage_def chanRecv_Received split: if_splits received.splits)

lemma waitReturnsE:
  assumes "waitReturns s = Some s'"
  obtains (reply) i where "di_workersGroup (sy_ed s) = 0" "sy_pc s = WaitFlush i \<or> sy_pc s = WaitSync i"
      "s' = s\<lparr>sy_replied := i # sy_replied s, sy_pc := AtSelect\<rparr>"
    | (shutdown) "di_workersGroup (sy_ed s) = 0" "sy_pc s = WaitShutdown"
      "s' = s\<lparr>sy_ed := (sy_ed s)\<lparr>di_flushCh := chanClose (di_flushCh (sy_ed s)),
                               di_senderResultCh := chanClose (di_senderResultCh (sy_ed s))\<rparr>,
              sy_pc := ReplyShutdown\<rparr>"
  using assms by (auto simp: waitReturns_def split: if_splits dispatcherPc.splits)

lemma shutdownReplyE:
  assumes "shutdownReply s = Some s'"
  obtains "sy_pc s = ReplyShutdown" "sy_close s = CloseWait"
    "s' = s\<lparr>sy_pc := Stopped, sy_close := CloseReturned\<rparr>"
  using assms by (auto simp: shutdownReply_def split: if_splits)

lemma workerTakeE:
  assumes "workerTake i s = Some s'"
  obtains (takes) p ps where "i < length (sy_workers s)" "sy_workers s ! i = Idle"
      "ch_buf (di_flushCh (sy_ed s)) = p # ps"
      "s' = setWorker i (Working p) (s\<lparr>sy_ed := (sy_ed s)\<lparr>di_flushCh := (di_flushCh (sy_ed s))\<lparr>ch_buf := ps\<rparr>\<rparr>\<rparr>)"
    | (exits) "i < length (sy_workers s)" "sy_workers s ! i = Idle" "ch_closed (di_flushCh (sy_ed s))"
      "ch_buf (di_flushCh (sy_ed s)) = []" "s' = setWorker i Exited s"
  using assms
  by (auto simp: workerTake_def chanRecv_Received chanRecv_NoMore split: if_splits received.splits)

lemma workerSendE:
  assumes "workerSend k i r s = Some s'"
  obtains (sends) p kind body n w where "i < length (sy_workers s)" "sy_workers s ! i = Working p"
      "w = Finishing \<and> kind = DiagnosticEventDataKind \<and> body = [WValue (fl_diagnosticEvent p)] \<and> n = 1 \<and>
         \<not> v_isNull (sk_V k) (fl_diagnosticEvent p) \<or>
       w = Posting r \<and> kind = AnalyticsEventDataKind \<and> v_isNull (sk_V k) (fl_diagnosticEvent p) \<and>
         outputOf k (di_config (sy_ed s)) p = Some (Some body, n)"
      "s' = setWorker i w (s\<lparr>sy_sent := sy_sent s @
         [\<lparr>dl_kind = kind, dl_body = body, dl_count = n, dl_payload = p, dl_result = r\<rparr>]\<rparr>)"
    | (nothing) p n where "i < length (sy_workers s)" "sy_workers s ! i = Working p"
      "v_isNull (sk_V k) (fl_diagnosticEvent p)" "outputOf k (di_config (sy_ed s)) p = Some (None, n)"
      "s' = setWorker i Finishing s"
proof (cases "sy_workers s ! i")
  case (Working p)
  with assms that show ?thesis
    by (auto simp: workerSend_def split: if_splits option.splits)
qed (use assms in \<open>simp_all add: workerSend_def split: if_splits\<close>)

lemma workerPostE:
  assumes "workerPost i s = Some s'" and "\<not> ch_closed (di_senderResultCh (sy_ed s))"
  obtains r where "i < length (sy_workers s)" "sy_workers s ! i = Posting r"
    "length (ch_buf (di_senderResultCh (sy_ed s))) < ch_cap (di_senderResultCh (sy_ed s))"
    "s' = setWorker i Finishing (s\<lparr>sy_ed := (sy_ed s)\<lparr>di_senderResultCh :=
       (di_senderResultCh (sy_ed s))\<lparr>ch_buf := ch_buf (di_senderResultCh (sy_ed s)) @ [r]\<rparr>\<rparr>\<rparr>)"
  using assms
  by (auto simp: workerPost_def chanSend_def split: if_splits worker.splits)

lemma workerDoneE:
  assumes "workerDone i s = Some s'" and "0 < di_workersGroup (sy_ed s)"
  obtains "i < length (sy_workers s)" "sy_workers s ! i = Finishing"
    "s' = setWorker i Idle (s\<lparr>sy_ed := (sy_ed s)\<lparr>di_workersGroup := di_workersGroup (sy_ed s) - 1\<rparr>\<rparr>)"
  using assms by (auto simp: workerDone_def orCrash_def split: if_splits)

text \<open>The handlers, on a dispatcher that is in its invariant.\<close>

lemma handleMessageE:
  assumes "handleMessage k now s = Some s'" and "disp_ok (sy_ed s)"
    and "\<not> ch_closed (di_flushCh (sy_ed s))" and "0 \<le> di_workersGroup (sy_ed s)"
  obtains (event) evt ed where "sy_pc s = Handling (SendEvent evt)"
      "processEvent (sk_C k) (sk_smp k) now (sy_ed s) evt = Inr ed"
      "s' = recordAccepted (sy_ed s) ed (s\<lparr>sy_ed := ed, sy_pc := AtSelect\<rparr>)"
    | (flush) r ed where "sy_pc s = Handling (FlushEvents r)" "triggerFlush (sk_V k) (sy_ed s) = Inr ed"
      "s' = s\<lparr>sy_ed := ed, sy_pc := (case r of None \<Rightarrow> AtSelect | Some i \<Rightarrow> WaitFlush i)\<rparr>"
    | (waits) pc where "sy_pc s = Handling ShutdownEvents \<and> pc = WaitShutdown \<or>
        (\<exists>i. sy_pc s = Handling (SyncEvents i) \<and> pc = WaitSync i)" "s' = s\<lparr>sy_pc := pc\<rparr>"
proof -
  obtain m where pc: "sy_pc s = Handling m"
    using assms(1) by (auto simp: handleMessage_def split: dispatcherPc.splits)
  show thesis
  proof (cases m)
    case (SendEvent evt)
    obtain ed where "processEvent (sk_C k) (sk_smp k) now (sy_ed s) evt = Inr ed"
      using processEvent_ok [OF assms(2)] by blast
    with assms(1) pc SendEvent event show ?thesis by (simp add: handleMessage_def orCrash_def)
  next
    case (FlushEvents r)
    obtain ed where "triggerFlush (sk_V k) (sy_ed s) = Inr ed"
      using triggerFlush_ok [OF assms(2-4)] by blast
    with assms(1) pc FlushEvents flush show ?thesis by (simp add: handleMessage_def orCrash_def)
  qed (use assms(1) pc waits in \<open>auto simp: handleMessage_def\<close>)
qed

lemma receiveResultE:
  assumes "receiveResult s = Some s'" and "\<not> ch_closed (di_senderResultCh (sy_ed s))"
  obtains r rs ed where "sy_pc s = AtSelect" "ch_buf (di_senderResultCh (sy_ed s)) = r # rs"
    "ed = (sy_ed s)\<lparr>di_senderResultCh := (di_senderResultCh (sy_ed s))\<lparr>ch_buf := rs\<rparr>\<rparr>"
    "s' = recordDiscarded (sy_ed s) (handleResult ed r) (s\<lparr>sy_ed := handleResult ed r\<rparr>)"
  using assms
  by (auto simp: receiveResult_def Let_def chanRecv_Received chanRecv_NoMore split: if_splits received.splits)

lemma tickStepE:
  assumes "tickStep k t s = Some s'" and "disp_ok (sy_ed s)"
    and "\<not> ch_closed (di_flushCh (sy_ed s))" and "0 \<le> di_workersGroup (sy_ed s)"
  obtains (flush) ed where "sy_pc s = AtSelect" "triggerFlush (sk_V k) (sy_ed s) = Inr ed"
      "s' = s\<lparr>sy_ed := ed\<rparr>"
    | (users) "sy_pc s = AtSelect" "s' = s\<lparr>sy_ed := usersResetTick (sy_ed s)\<rparr>"
    | (diagnostics) now ed mgr where "sy_pc s = AtSelect"
      "diagnosticsTick (sk_V k) now (sy_ed s) (sy_mgr s) = Inr (ed, mgr)"
      "s' = s\<lparr>sy_ed := ed, sy_mgr := mgr\<rparr>"
proof -
  have pc: "sy_pc s = AtSelect" using assms(1) by (auto simp: tickStep_def split: if_splits)
  show thesis
  proof (cases t)
    case FlushTick
    obtain ed where "triggerFlush (sk_V k) (sy_ed s) = Inr ed"
      using triggerFlush_ok [OF assms(2-4)] by blast
    with assms(1) pc FlushTick flush show ?thesis by (simp add: tickStep_def orCrash_def)
  next
    case UsersResetTick
    with assms(1) pc users show ?thesis by (simp add: tickStep_def)
  next
    case (DiagnosticsTick now)
    obtain ed mgr where "diagnosticsTick (sk_V k) now (sy_ed s) (sy_mgr s) = Inr (ed, mgr)"
      using diagnosticsTick_ok [OF assms(2-4)] by blast
    with assms(1) pc DiagnosticsTick diagnostics show ?thesis by (simp add: tickStep_def orCrash_def)
  qed
qed

section \<open>Every action keeps the synchronisation invariant\<close>

lemma recordAccepted_simps [simp]:
  "sy_ed (recordAccepted a b s) = sy_ed s" "sy_workers (recordAccepted a b s) = sy_workers s"
  "sy_pc (recordAccepted a b s) = sy_pc s" "sy_inbox (recordAccepted a b s) = sy_inbox s"
  "sy_crash (recordAccepted a b s) = sy_crash s" "sy_close (recordAccepted a b s) = sy_close s"
  "sy_sent (recordAccepted a b s) = sy_sent s" "sy_discarded (recordAccepted a b s) = sy_discarded s"
  "sy_calls (recordAccepted a b s) = sy_calls s" "sy_replied (recordAccepted a b s) = sy_replied s"
  by (simp_all add: recordAccepted_def)

lemma recordDiscarded_simps [simp]:
  "sy_ed (recordDiscarded a b s) = sy_ed s" "sy_workers (recordDiscarded a b s) = sy_workers s"
  "sy_pc (recordDiscarded a b s) = sy_pc s" "sy_inbox (recordDiscarded a b s) = sy_inbox s"
  "sy_crash (recordDiscarded a b s) = sy_crash s" "sy_close (recordDiscarded a b s) = sy_close s"
  "sy_sent (recordDiscarded a b s) = sy_sent s" "sy_accepted (recordDiscarded a b s) = sy_accepted s"
  "sy_calls (recordDiscarded a b s) = sy_calls s" "sy_replied (recordDiscarded a b s) = sy_replied s"
  by (simp_all add: recordDiscarded_def)

lemma setWorker_simps [simp]:
  "sy_ed (setWorker i w s) = sy_ed s" "sy_workers (setWorker i w s) = (sy_workers s)[i := w]"
  "sy_pc (setWorker i w s) = sy_pc s" "sy_inbox (setWorker i w s) = sy_inbox s"
  "sy_crash (setWorker i w s) = sy_crash s" "sy_close (setWorker i w s) = sy_close s"
  "sy_sent (setWorker i w s) = sy_sent s" "sy_accepted (setWorker i w s) = sy_accepted s"
  "sy_discarded (setWorker i w s) = sy_discarded s"
  "sy_calls (setWorker i w s) = sy_calls s" "sy_replied (setWorker i w s) = sy_replied s"
  by (simp_all add: setWorker_def)

lemma enqueue_inv: "sync_inv s \<Longrightarrow> enqueue m s = Some s' \<Longrightarrow> sync_inv s'"
  by (erule enqueueE) (auto simp: sync_inv_def chan_ok_def)

lemma sync_inv_calls [simp]:
  "sync_inv (s\<lparr>sy_calls := cs\<rparr>) = sync_inv s" "sync_inv (s\<lparr>sy_close := c\<rparr>) = sync_inv s"
  "sync_inv (s\<lparr>sy_inboxFullOnce := b\<rparr>) = sync_inv s" "sync_inv (s\<lparr>sy_loggers := ls\<rparr>) = sync_inv s"
  "sync_inv (s\<lparr>sy_mgr := m\<rparr>) = sync_inv s" "sync_inv (s\<lparr>sy_sent := ds\<rparr>) = sync_inv s"
  by (simp_all add: sync_inv_def)

lemma postNonBlocking_inv: "sync_inv s \<Longrightarrow> postNonBlocking ready m s = Some s' \<Longrightarrow> sync_inv s'"
  by (auto simp: postNonBlocking_def intro: enqueue_inv split: if_splits)

lemma handler_inv:
  assumes "sync_inv s" and "\<not> afterClose (sy_pc s)" and "disp_ok ed'" and "sync_frame (sy_ed s) ed'"
    and "sy_crash s' = None" and "sy_ed s' = ed'" and "sy_workers s' = sy_workers s"
    and "\<not> afterClose (sy_pc s')" and "sy_inbox s' = sy_inbox s"
  shows "sync_inv s'"
  using assms shared_ok_frame by (auto simp: sync_inv_def)

lemma open_state:
  assumes "sync_inv s" and "\<not> afterClose (sy_pc s)"
  shows "disp_ok (sy_ed s)" and "\<not> ch_closed (di_flushCh (sy_ed s))"
    and "\<not> ch_closed (di_senderResultCh (sy_ed s))" and "0 \<le> di_workersGroup (sy_ed s)"
    and "sy_crash s = None"
  using assms by (auto simp: sync_inv_def shared_ok_def)

text \<open>Where an action is enabled the channels are open, and the group counts a worker that is busy.\<close>

lemma handling_open:
  assumes "sync_inv s" and "handleMessage k now s = Some s'"
  shows "disp_ok (sy_ed s)" and "\<not> ch_closed (di_flushCh (sy_ed s))"
    and "\<not> ch_closed (di_senderResultCh (sy_ed s))" and "0 \<le> di_workersGroup (sy_ed s)"
proof -
  have "\<not> afterClose (sy_pc s)" using assms(2) by (cases "sy_pc s") (auto simp: handleMessage_def)
  from open_state [OF assms(1) this] show "disp_ok (sy_ed s)" and "\<not> ch_closed (di_flushCh (sy_ed s))"
    and "\<not> ch_closed (di_senderResultCh (sy_ed s))" and "0 \<le> di_workersGroup (sy_ed s)" by simp_all
qed

lemma ticking_open:
  assumes "sync_inv s" and "tickStep k t s = Some s'"
  shows "disp_ok (sy_ed s)" and "\<not> ch_closed (di_flushCh (sy_ed s))"
    and "\<not> ch_closed (di_senderResultCh (sy_ed s))" and "0 \<le> di_workersGroup (sy_ed s)"
  using open_state [OF assms(1)] assms(2) by (auto simp: tickStep_def split: if_splits)

lemma result_open:
  "sync_inv s \<Longrightarrow> receiveResult s = Some s' \<Longrightarrow> \<not> ch_closed (di_senderResultCh (sy_ed s))"
  using open_state(3) [of s] by (auto simp: receiveResult_def split: if_splits)

lemma handleMessage_inv:
  assumes "sync_inv s" and "handleMessage k now s = Some s'"
  shows "sync_inv s'"
proof -
  have pc: "\<not> afterClose (sy_pc s)"
    using assms(2) by (cases "sy_pc s") (auto simp: handleMessage_def)
  note o = open_state [OF assms(1) pc]
  from assms(2) o(1,2,4) show ?thesis
  proof (cases rule: handleMessageE)
    case (event evt ed)
    obtain ed2 where "processEvent (sk_C k) (sk_smp k) now (sy_ed s) evt = Inr ed2" "disp_ok ed2"
      "sync_frame (sy_ed s) ed2"
      using processEvent_ok [OF o(1)] by blast
    with event o(5) show ?thesis by (intro handler_inv [OF assms(1) pc]) auto
  next
    case (flush r ed)
    obtain ed2 where "triggerFlush (sk_V k) (sy_ed s) = Inr ed2" "disp_ok ed2" "sync_frame (sy_ed s) ed2"
      using triggerFlush_ok [OF o(1,2,4)] by blast
    with flush o(5) show ?thesis
      by (intro handler_inv [OF assms(1) pc]) (auto split: option.split)
  next
    case (waits pc')
    with o(1,5) show ?thesis by (intro handler_inv [OF assms(1) pc]) auto
  qed
qed

lemma tickStep_inv:
  assumes "sync_inv s" and "tickStep k t s = Some s'"
  shows "sync_inv s'"
proof -
  have pc: "\<not> afterClose (sy_pc s)" using assms(2) by (auto simp: tickStep_def split: if_splits)
  note o = open_state [OF assms(1) pc]
  from assms(2) o(1,2,4) show ?thesis
  proof (cases rule: tickStepE)
    case (flush ed)
    with triggerFlush_ok [OF o(1,2,4), of "sk_V k"] o(5) pc show ?thesis
      by (intro handler_inv [OF assms(1) pc]) auto
  next
    case users
    with usersResetTick_ok [OF o(1)] o(5) pc show ?thesis
      by (intro handler_inv [OF assms(1) pc]) auto
  next
    case (diagnostics now ed mgr)
    with diagnosticsTick_ok [OF o(1,2,4), of "sk_V k" now "sy_mgr s"] o(5) pc show ?thesis
      by (intro handler_inv [OF assms(1) pc]) auto
  qed
qed

lemma receiveResult_inv:
  assumes "sync_inv s" and "receiveResult s = Some s'"
  shows "sync_inv s'"
proof -
  have pc: "\<not> afterClose (sy_pc s)" using assms(2) by (auto simp: receiveResult_def split: if_splits)
  note o = open_state [OF assms(1) pc]
  from assms(2) o(3) obtain r rs ed where r: "sy_pc s = AtSelect"
    "ch_buf (di_senderResultCh (sy_ed s)) = r # rs"
    "ed = (sy_ed s)\<lparr>di_senderResultCh := (di_senderResultCh (sy_ed s))\<lparr>ch_buf := rs\<rparr>\<rparr>"
    "s' = recordDiscarded (sy_ed s) (handleResult ed r) (s\<lparr>sy_ed := handleResult ed r\<rparr>)"
    by (rule receiveResultE)
  have d: "disp_ok ed" using o(1) r(3) by (simp add: disp_ok_def)
  have "shared_ok ed (sy_workers s) False"
    using assms(1) pc r(2,3) by (auto simp: sync_inv_def shared_ok_def chan_ok_def)
  then have "shared_ok (handleResult ed r) (sy_workers s) False"
    using handleResult_ok [OF d] shared_ok_frame by blast
  then show ?thesis
    using assms(1) pc r(1,4) handleResult_ok [OF d] by (simp add: sync_inv_def)
qed

lemma waitReturns_inv:
  assumes "sync_inv s" and "waitReturns s = Some s'"
  shows "sync_inv s'"
  using assms(2)
proof (cases rule: waitReturnsE)
  case (reply i)
  with assms(1) show ?thesis by (auto simp: sync_inv_def)
next
  case shutdown
  with assms(1) show ?thesis by (auto simp: sync_inv_def shared_ok_def disp_ok_def)
qed

lemma workerTake_inv:
  assumes "sync_inv s" and "workerTake i s = Some s'"
  shows "sync_inv s'"
  using assms(2)
proof (cases rule: workerTakeE)
  case (takes p ps)
  then have "busyCount ((sy_workers s)[i := Working p]) = Suc (busyCount (sy_workers s))"
    using busyCount_upd [of i "sy_workers s" "Working p"] by simp
  with takes assms(1) show ?thesis
    by (auto simp: sync_inv_def shared_ok_def chan_ok_def disp_ok_def
        dest: subsetD [OF set_update_subset_insert])
next
  case exits
  then have "busyCount ((sy_workers s)[i := Exited]) = busyCount (sy_workers s)"
    using busyCount_upd [of i "sy_workers s" Exited] by simp
  with exits assms(1) show ?thesis by (auto simp: sync_inv_def shared_ok_def)
qed

lemma busy_swap:
  assumes "sync_inv s" and "i < length (sy_workers s)" and "busy (sy_workers s ! i)" and "busy w"
  shows "sync_inv (setWorker i w s)"
proof -
  have "busyCount ((sy_workers s)[i := w]) = busyCount (sy_workers s)"
    using busyCount_upd [of i "sy_workers s" w] assms(2-4) by simp
  moreover have "Exited \<in> set ((sy_workers s)[i := w]) \<Longrightarrow> Exited \<in> set (sy_workers s)"
    using assms(4) set_update_subset_insert [of "sy_workers s" i w] by auto
  ultimately show ?thesis using assms(1) by (auto simp: sync_inv_def shared_ok_def)
qed

lemma busy_open:
  assumes "sync_inv s" and "i < length (sy_workers s)" and "busy (sy_workers s ! i)"
  shows "\<not> afterClose (sy_pc s)" and "0 < di_workersGroup (sy_ed s)"
proof -
  have "sy_workers s ! i \<in> set (filter busy (sy_workers s))" using assms(2,3) by simp
  then have "0 < busyCount (sy_workers s)"
    unfolding busyCount_def by (metis length_pos_if_in_set)
  then show "\<not> afterClose (sy_pc s)" and "0 < di_workersGroup (sy_ed s)"
    using assms(1) by (auto simp: sync_inv_def shared_ok_def)
qed

lemma post_open:
  assumes "sync_inv s" and "workerPost i s = Some s'"
  shows "\<not> ch_closed (di_senderResultCh (sy_ed s))"
proof -
  have "i < length (sy_workers s)" "busy (sy_workers s ! i)"
    using assms(2) by (auto simp: workerPost_def split: if_splits worker.splits)
  from open_state(3) [OF assms(1) busy_open(1) [OF assms(1) this]] show ?thesis .
qed

lemma done_counted:
  assumes "sync_inv s" and "workerDone i s = Some s'"
  shows "0 < di_workersGroup (sy_ed s)"
proof -
  have "i < length (sy_workers s)" "busy (sy_workers s ! i)"
    using assms(2) by (auto simp: workerDone_def split: if_splits)
  from busy_open(2) [OF assms(1) this] show ?thesis .
qed

lemma workerSend_inv:
  assumes "sync_inv s" and "workerSend k i r s = Some s'"
  shows "sync_inv s'"
  using assms(2)
proof (cases rule: workerSendE)
  case (sends p kind body n w)
  let ?s = "s\<lparr>sy_sent := sy_sent s @
    [\<lparr>dl_kind = kind, dl_body = body, dl_count = n, dl_payload = p, dl_result = r\<rparr>]\<rparr>"
  have "sync_inv (setWorker i w ?s)"
    by (rule busy_swap) (use sends assms(1) in auto)
  then show ?thesis using sends by simp
next
  case (nothing p n)
  with assms(1) show ?thesis by (auto intro: busy_swap)
qed

lemma workerPost_inv:
  assumes "sync_inv s" and "workerPost i s = Some s'"
  shows "sync_inv s'"
proof -
  have "i < length (sy_workers s) \<and> busy (sy_workers s ! i)"
    using assms(2) by (auto simp: workerPost_def split: if_splits worker.splits)
  then have pc: "\<not> afterClose (sy_pc s)" using busy_open(1) [OF assms(1)] by blast
  from assms(2) open_state(3) [OF assms(1) pc] show ?thesis
  proof (cases rule: workerPostE)
    case (1 r)
    have "sync_inv (setWorker i Finishing s)" by (rule busy_swap [OF assms(1)]) (simp_all add: 1)
    with 1 show ?thesis by (auto simp: sync_inv_def shared_ok_def disp_ok_def chan_ok_def)
  qed
qed

lemma workerDone_inv:
  assumes "sync_inv s" and "workerDone i s = Some s'"
  shows "sync_inv s'"
proof -
  have "i < length (sy_workers s) \<and> busy (sy_workers s ! i)"
    using assms(2) by (auto simp: workerDone_def split: if_splits)
  note b = busy_open [OF assms(1) this [THEN conjunct1] this [THEN conjunct2]]
  from assms(2) b(2) show ?thesis
  proof (cases rule: workerDoneE)
    case 1
    then have "Suc (busyCount ((sy_workers s)[i := Idle])) = busyCount (sy_workers s)"
      using busyCount_upd [of i "sy_workers s" Idle] by simp
    moreover have "Exited \<in> set ((sy_workers s)[i := Idle]) \<Longrightarrow> Exited \<in> set (sy_workers s)"
      using set_update_subset_insert [of "sy_workers s" i Idle] by auto
    ultimately show ?thesis
      using 1 assms(1) b(1) by (auto simp: sync_inv_def shared_ok_def disp_ok_def)
  qed
qed

lemma act_sync_inv:
  assumes "sync_inv s" and "act k l s = Some s'"
  shows "sync_inv s'"
proof (cases l)
  case (LCallSend i)
  with assms show ?thesis by (auto elim!: callSendE dest: enqueue_inv [rotated])
next
  case LClose
  with assms show ?thesis by (auto elim!: closeStepE dest: enqueue_inv [rotated])
next
  case LReceive
  with assms show ?thesis
    by (auto elim!: receiveMessageE simp: sync_inv_def chan_ok_def)
next
  case LShutdownReply
  with assms show ?thesis by (auto elim!: shutdownReplyE simp: sync_inv_def)
next
  case (LPost ready m)
  with assms show ?thesis by (auto intro: postNonBlocking_inv split: if_splits)
qed (use assms in \<open>auto simp: callBegin_def elim!: callReturnE callTimeoutE intro: handleMessage_inv
      waitReturns_inv receiveResult_inv tickStep_inv workerTake_inv workerSend_inv workerPost_inv
      workerDone_inv\<close>)

section \<open>Conservation of events\<close>

fun workingEvents :: "('c, 'v, 'r) worker \<Rightarrow> ('c, 'v, 'r) anyEvent list" where
  "workingEvents (Working p) = fl_events p"
| "workingEvents _ = []"

definition sentEvents :: "('a, 'c, 'v, 'r, 's) system \<Rightarrow> ('c, 'v, 'r) anyEvent list" where
  "sentEvents s = concat (map (\<lambda>d. fl_events (dl_payload d)) (sy_sent s))"

definition inFlight :: "('a, 'c, 'v, 'r, 's) system \<Rightarrow> ('c, 'v, 'r) anyEvent multiset" where
  "inFlight s = mset (queuedEvents (sy_ed s)) + mset (concat (map workingEvents (sy_workers s)))"

definition conserved :: "('a, 'c, 'v, 'r, 's) system \<Rightarrow> bool" where
  "conserved s \<longleftrightarrow>
     mset (sy_accepted s) =
       mset (outboxEvents (sy_ed s)) + inFlight s + mset (sentEvents s) + mset (sy_discarded s)"

lemma makeOutputEvents_None:
  "makeOutputEvents n V A C R f events summary = Some (None, cnt) \<Longrightarrow> events = []"
  by (auto simp: makeOutputEvents_def Let_def split: option.splits if_splits)

lemma conserved_same:
  assumes "conserved s" and "outboxEvents (sy_ed s') = outboxEvents (sy_ed s)"
    and "queuedEvents (sy_ed s') = queuedEvents (sy_ed s)" and "sy_workers s' = sy_workers s"
    and "sy_sent s' = sy_sent s" and "sy_accepted s' = sy_accepted s" and "sy_discarded s' = sy_discarded s"
  shows "conserved s'"
  using assms by (simp add: conserved_def inFlight_def sentEvents_def)

lemma conserved_calls [simp]:
  "conserved (s\<lparr>sy_calls := cs\<rparr>) = conserved s" "conserved (s\<lparr>sy_close := c\<rparr>) = conserved s"
  by (simp_all add: conserved_def inFlight_def sentEvents_def)

lemma enqueue_conserved: "conserved s \<Longrightarrow> enqueue m s = Some s' \<Longrightarrow> conserved s'"
  by (erule conserved_same) (auto simp: enqueue_def split: sum.splits option.splits if_splits)

lemma mset_exchange:
  fixes a b m m' q q' r r' :: "'x multiset"
  assumes "m' + a = m + b" and "q' + b + r' = q + a + r"
  shows "q' + m' + r' = q + m + r"
proof -
  have "(q' + m' + r') + (a + b) = (q' + b + r') + (m' + a)" by (simp add: ac_simps)
  also have "\<dots> = (q + a + r) + (m + b)" by (simp only: assms)
  also have "\<dots> = (q + m + r) + (a + b)" by (simp add: ac_simps)
  finally show ?thesis by simp
qed

lemma worker_conserved:
  assumes "i < length (sy_workers s)" and "sy_workers s' = (sy_workers s)[i := w]"
    and "outboxEvents (sy_ed s') = outboxEvents (sy_ed s)" and "sy_accepted s' = sy_accepted s"
    and "sy_discarded s' = sy_discarded s" and "conserved s"
    and "mset (queuedEvents (sy_ed s')) + mset (workingEvents w) + mset (sentEvents s') =
      mset (queuedEvents (sy_ed s)) + mset (workingEvents (sy_workers s ! i)) + mset (sentEvents s)"
  shows "conserved s'"
proof -
  let ?m = "\<lambda>ws. mset (concat (map workingEvents ws))"
  have "?m ((sy_workers s)[i := w]) + mset (workingEvents (sy_workers s ! i)) =
      ?m (sy_workers s) + mset (workingEvents w)"
    by (rule mset_concat_upd) (rule assms(1))
  then have "inFlight s' + mset (sentEvents s') = inFlight s + mset (sentEvents s)"
    unfolding inFlight_def assms(2) by (rule mset_exchange) (rule assms(7))
  with assms(3-6) show ?thesis by (simp add: conserved_def add.assoc)
qed

text \<open>Every action keeps it.\<close>

lemma act_conserved:
  assumes inv: "sync_inv s" and cons: "conserved s" and act: "act k l s = Some s'"
  shows "conserved s'"
proof (cases l)
  case (LPost ready m)
  with act cons show ?thesis
    by (auto simp: postNonBlocking_def intro: enqueue_conserved [OF cons] conserved_same [OF cons]
        split: if_splits)
next
  case (LCallBegin kind)
  with act cons show ?thesis by (auto simp: callBegin_def elim: conserved_same)
next
  case (LCallSend i)
  with act cons show ?thesis by (auto elim!: callSendE dest: enqueue_conserved [rotated])
next
  case (LCallReturn i)
  with act show ?thesis by (auto elim!: callReturnE intro: conserved_same [OF cons])
next
  case (LCallTimeout i)
  with act show ?thesis by (auto elim!: callTimeoutE intro: conserved_same [OF cons])
next
  case LClose
  from act LClose have "closeStep s = Some s'" by simp
  then show ?thesis
    by (cases rule: closeStepE)
      (use cons in \<open>auto dest: enqueue_conserved [rotated]\<close>)
next
  case (LStreamInit si)
  with act show ?thesis by (auto intro: conserved_same [OF cons])
next
  case LReceive
  with act show ?thesis by (auto elim!: receiveMessageE intro: conserved_same [OF cons])
next
  case LWait
  from act LWait have "waitReturns s = Some s'" by simp
  then show ?thesis
    by (cases rule: waitReturnsE)
      (auto intro: conserved_same [OF cons] simp: queuedEvents_def outboxEvents_def)
next
  case LShutdownReply
  with act show ?thesis by (auto elim!: shutdownReplyE intro: conserved_same [OF cons])
next
  case (LHandle now)
  then have h: "handleMessage k now s = Some s'" using act by simp
  note o = handling_open [OF inv h]
  from h o(1,2,4) show ?thesis
  proof (cases rule: handleMessageE)
    case (event evt ed)
    with processEvent_ok [OF o(1), of "sk_C k" "sk_smp k" now evt] cons show ?thesis
      by (auto simp: conserved_def inFlight_def queuedEvents_def sentEvents_def recordAccepted_def)
  next
    case (flush r ed)
    have "mset (queuedEvents ed @ outboxEvents ed) = mset (queuedEvents (sy_ed s) @ outboxEvents (sy_ed s))"
      using triggerFlush_ok [OF o(1,2,4), of "sk_V k"] flush(2) by auto
    with flush cons show ?thesis
      by (simp add: conserved_def inFlight_def sentEvents_def ac_simps)
  next
    case (waits pc)
    then show ?thesis by (auto intro: conserved_same [OF cons])
  qed
next
  case (LTick t)
  then have h: "tickStep k t s = Some s'" using act by simp
  note o = ticking_open [OF inv h]
  from h o(1,2,4) show ?thesis
  proof (cases rule: tickStepE)
    case (flush ed)
    have "mset (queuedEvents ed @ outboxEvents ed) = mset (queuedEvents (sy_ed s) @ outboxEvents (sy_ed s))"
      using triggerFlush_ok [OF o(1,2,4), of "sk_V k"] flush(2) by auto
    with flush cons show ?thesis
      by (simp add: conserved_def inFlight_def sentEvents_def ac_simps)
  next
    case users
    then show ?thesis
      by (auto intro: conserved_same [OF cons] simp: usersResetTick_def queuedEvents_def outboxEvents_def)
  next
    case (diagnostics now ed mgr)
    with diagnosticsTick_ok [OF o(1,2,4), of "sk_V k" now "sy_mgr s"] show ?thesis
      by (auto intro: conserved_same [OF cons])
  qed
next
  case LResult
  then have h: "receiveResult s = Some s'" using act by simp
  from h result_open [OF inv h] show ?thesis
  proof (cases rule: receiveResultE)
    case (1 r rs ed)
    with cons show ?thesis
      by (auto simp: conserved_def inFlight_def sentEvents_def recordDiscarded_def handleResult_def
          outboxEvents_def queuedEvents_def)
  qed
next
  case (LTake i)
  from act LTake have "workerTake i s = Some s'" by simp
  then show ?thesis
  proof (cases rule: workerTakeE)
    case (takes p ps)
    with cons show ?thesis
      by (intro worker_conserved [of i s s' "Working p"])
        (auto simp: queuedEvents_def outboxEvents_def sentEvents_def)
  next
    case exits
    with cons show ?thesis
      by (intro worker_conserved [of i s s' Exited]) (auto simp: sentEvents_def)
  qed
next
  case (LWorkerSend i r)
  from act LWorkerSend have "workerSend k i r s = Some s'" by simp
  then show ?thesis
  proof (cases rule: workerSendE)
    case (sends p kind body n w)
    have "workingEvents w = []" using sends(3) by auto
    with sends cons show ?thesis
      by (intro worker_conserved [of i s s' w]) (auto simp: sentEvents_def setWorker_def)
  next
    case (nothing p n)
    with cons show ?thesis
      by (intro worker_conserved [of i s s' Finishing])
        (auto simp: sentEvents_def outputOf_def dest: makeOutputEvents_None)
  qed
next
  case (LWorkerPost i)
  then have h: "workerPost i s = Some s'" using act by simp
  from h post_open [OF inv h] show ?thesis
  proof (cases rule: workerPostE)
    case (1 r)
    with cons show ?thesis
      by (intro worker_conserved [of i s s' Finishing])
        (auto simp: queuedEvents_def outboxEvents_def sentEvents_def)
  qed
next
  case (LWorkerDone i)
  then have h: "workerDone i s = Some s'" using act by simp
  from h done_counted [OF inv h] show ?thesis
  proof (cases rule: workerDoneE)
    case 1
    with cons show ?thesis
      by (intro worker_conserved [of i s s' Idle])
        (auto simp: queuedEvents_def outboxEvents_def sentEvents_def)
  qed
qed

end
