(* ===== verification/Processor_Properties.thy ===== *)
theory Processor_Properties
  imports Processor_Invariants
begin

text \<open>
  What the invariants give for every reachable state of the event processor: no panic, bounded
  channels and an exact wait group; conservation of events; and what a returned \<open>Wait\<close> means. Also
  the shutdown protocol, and the concrete runs that witnesses and counterexamples use.
\<close>

section \<open>The start\<close>

lemma start_ok:
  fixes s :: "('a, 'c, 'v, 'r, 's) system"
  assumes "NewDefaultEventProcessor k config sampler mgr = Inr s" and "0 \<le> cg_UserKeysCapacity config"
  shows "sync_inv s \<and> conserved s"
proof -
  obtain ed where ed: "startEventDispatcher (sk_V k) (sk_runtime k) config sampler mgr = Inr ed"
    and s: "s = \<lparr>sy_inbox = makeChan (nat (cg_Capacity config)), sy_pc = AtSelect, sy_ed = ed,
             sy_mgr = mgr, sy_workers = replicate maxFlushWorkers Idle, sy_calls = [],
             sy_replied = [], sy_close = CloseIdle, sy_inboxFullOnce = False, sy_loggers = [],
             sy_sent = [], sy_accepted = [], sy_discarded = [], sy_crash = None\<rparr>"
    using assms(1) by (auto simp: NewDefaultEventProcessor_def go_bind_eq_Inr split: if_splits)
  obtain ob :: "('c, 'v, 'r) eventsOutbox" where ob: "newEventsOutbox (cg_Capacity config) = Inr ob"
    using ed by (auto simp: startEventDispatcher_def go_bind_eq_Inr)
  define ed0 where "ed0 = \<lparr>di_config = config, di_outbox = ob, di_flushCh = makeChan 1,
    di_senderResultCh = makeChan maxFlushWorkers, di_workersGroup = 0,
    di_userKeys = newLruCache (cg_UserKeysCapacity config),
    di_lastKnownPastTime = 0, di_deduplicatedContexts = 0,
    di_eventsInLastBatch = 0, di_disabled = False, di_sampler = sampler\<rparr>"
  have ob_ev: "ob_events ob = []" using ob by (auto simp: newEventsOutbox_def split: if_splits)
  have d0: "disp_ok ed0" using outbox_inv_new [OF ob] lru_inv_new [OF assms(2)]
    by (simp add: disp_ok_def ed0_def)
  have i: "\<not> ch_closed (di_flushCh ed0)" "0 \<le> di_workersGroup ed0" by (simp_all add: ed0_def)
  have "ed = ed0 \<or> (\<exists>v. ed = ed0\<lparr>di_workersGroup := 1,
      di_flushCh := (makeChan 1)\<lparr>ch_buf := [diagnosticPayload v]\<rparr>\<rparr>)"
  proof (cases mgr)
    case None
    with ed ob show ?thesis by (simp add: startEventDispatcher_def Let_def ed0_def)
  next
    case (Some m)
    with ed ob have "sendDiagnosticsEvent ed0 (CreateInitEvent (sk_V k) (sk_runtime k) m) = Inr ed"
      by (simp add: startEventDispatcher_def Let_def ed0_def)
    then show ?thesis unfolding sendDiagnosticsEvent_eq [OF i] by (auto simp: ed0_def)
  qed
  moreover have "busyCount (replicate n Idle) = 0" for n by (simp add: busyCount_def filter_empty_conv)
  moreover have "concat (map workingEvents (replicate n Idle)) = []" for n by (induction n) simp_all
  ultimately show ?thesis
    using d0 ob_ev
    by (auto simp: s sync_inv_def shared_ok_def disp_ok_def conserved_def inFlight_def sentEvents_def
        queuedEvents_def outboxEvents_def diagnosticPayload_def chan_ok_def ed0_def)
qed

text \<open>The shutdown protocol: at most one shutdown message, and the reply is the last thing.\<close>

definition isShutdown :: "('c, 'v, 'r) message \<Rightarrow> bool" where
  "isShutdown m \<longleftrightarrow> (case m of ShutdownEvents \<Rightarrow> True | _ \<Rightarrow> False)"

fun shutdownPc :: "('c, 'v, 'r) dispatcherPc \<Rightarrow> bool" where
  "shutdownPc (Handling m) \<longleftrightarrow> isShutdown m"
| "shutdownPc WaitShutdown \<longleftrightarrow> True"
| "shutdownPc ReplyShutdown \<longleftrightarrow> True"
| "shutdownPc _ \<longleftrightarrow> False"

definition close_inv :: "('a, 'c, 'v, 'r, 's) system \<Rightarrow> bool" where
  "close_inv s \<longleftrightarrow>
     length (filter isShutdown (ch_buf (sy_inbox s))) + (if shutdownPc (sy_pc s) then 1 else 0) =
       (if sy_close s = CloseWait then 1 else 0 :: nat) \<and>
     (sy_pc s = Stopped \<longleftrightarrow> sy_close s = CloseReturned)"

lemma isShutdown_simps [simp]:
  "isShutdown ShutdownEvents" "\<not> isShutdown (SendEvent e)" "\<not> isShutdown (FlushEvents r)"
  "\<not> isShutdown (SyncEvents i)"
  by (simp_all add: isShutdown_def)

lemma isShutdown_iff: "isShutdown m \<longleftrightarrow> m = ShutdownEvents"
  by (cases m) simp_all

lemma enqueue_close_inv:
  "enqueue m s = Some s' \<Longrightarrow> \<not> ch_closed (sy_inbox s) \<Longrightarrow> close_inv s \<Longrightarrow> \<not> isShutdown m \<Longrightarrow> close_inv s'"
  by (erule enqueueE) (auto simp: close_inv_def)

lemma close_inv_same:
  "close_inv s \<Longrightarrow> sy_inbox s' = sy_inbox s \<Longrightarrow> sy_pc s' = sy_pc s \<Longrightarrow> sy_close s' = sy_close s \<Longrightarrow>
     close_inv s'"
  by (simp add: close_inv_def)

lemma act_close_inv:
  assumes inv: "sync_inv s" and c: "close_inv s" and act: "act k l s = Some s'"
  shows "close_inv s'"
proof -
  have box: "\<not> ch_closed (sy_inbox s)" using inv by (simp add: sync_inv_def)
  show ?thesis
  proof (cases l)
    case (LPost ready m)
    then have "recordable m" and p: "postNonBlocking ready m s = Some s'"
      using act by (auto split: if_splits)
    then have "\<not> isShutdown m" by (cases m) auto
    with p c box show ?thesis
      by (auto simp: postNonBlocking_def close_inv_def dest!: enqueue_close_inv split: if_splits)
  next
    case (LCallSend i)
    then have "callSend i s = Some s'" using act by simp
    then show ?thesis
    proof (cases rule: callSendE)
      case (1 kind)
      let ?s = "s\<lparr>sy_calls := (sy_calls s)[i := (kind, CallWaiting)]\<rparr>"
      have "close_inv ?s" "\<not> ch_closed (sy_inbox ?s)" using c box by (simp_all add: close_inv_def)
      with 1(3) show ?thesis by (auto intro: enqueue_close_inv split: callKind.splits)
    qed
  next
    case LClose
    then have "closeStep s = Some s'" using act by simp
    then show ?thesis
    proof (cases rule: closeStepE)
      case starts
      with c show ?thesis by (simp add: close_inv_def)
    next
      case flush
      have "close_inv (s\<lparr>sy_close := CloseShutdown\<rparr>)" using c flush(1) by (simp add: close_inv_def)
      with flush(2) box show ?thesis by (auto intro: enqueue_close_inv)
    next
      case shutdown
      from shutdown(2) box have
        "s' = s\<lparr>sy_close := CloseWait, sy_inbox := (sy_inbox s)\<lparr>ch_buf := ch_buf (sy_inbox s) @ [ShutdownEvents]\<rparr>\<rparr> \<or>
         sy_pc s = AtSelect \<and> s' = s\<lparr>sy_close := CloseWait, sy_pc := Handling ShutdownEvents\<rparr>"
        by (auto elim!: enqueueE)
      with c shutdown(1) show ?thesis by (auto simp: close_inv_def)
    qed
  next
    case LReceive
    with act c show ?thesis by (auto elim!: receiveMessageE simp: close_inv_def split: if_splits)
  next
    case LWait
    then have "waitReturns s = Some s'" using act by simp
    then show ?thesis using c by (cases rule: waitReturnsE) (auto simp: close_inv_def)
  next
    case LShutdownReply
    with act c show ?thesis by (auto elim!: shutdownReplyE simp: close_inv_def)
  next
    case (LHandle now)
    then have h: "handleMessage k now s = Some s'" using act by simp
    note o = handling_open [OF inv h]
    from h o(1,2,4) show ?thesis
      using c by (cases rule: handleMessageE) (auto simp: close_inv_def split: option.split if_splits)
  next
    case (LTick t)
    then have h: "tickStep k t s = Some s'" using act by simp
    note o = ticking_open [OF inv h]
    from h o(1,2,4) show ?thesis using c by (cases rule: tickStepE) (auto simp: close_inv_def)
  next
    case LResult
    then have h: "receiveResult s = Some s'" using act by simp
    from h result_open [OF inv h] show ?thesis
      using c by (cases rule: receiveResultE) (auto simp: close_inv_def)
  next
    case (LTake i)
    with act show ?thesis by (auto elim!: workerTakeE intro: close_inv_same [OF c])
  next
    case (LWorkerSend i r)
    with act show ?thesis by (auto elim!: workerSendE intro: close_inv_same [OF c])
  next
    case (LWorkerPost i)
    then have "workerPost i s = Some s'" using act by simp
    then show ?thesis
      by (auto simp: workerPost_def split: if_splits worker.splits sum.splits option.splits
          intro: close_inv_same [OF c])
  next
    case (LWorkerDone i)
    then have "workerDone i s = Some s'" using act by simp
    then show ?thesis
      by (auto simp: workerDone_def orCrash_def wg_Done_def wg_Add_def split: if_splits
          intro: close_inv_same [OF c])
  next
    case (LCallReturn i)
    with act show ?thesis by (auto elim!: callReturnE intro: close_inv_same [OF c])
  next
    case (LCallTimeout i)
    with act show ?thesis by (auto elim!: callTimeoutE intro: close_inv_same [OF c])
  qed (use act in \<open>auto simp: callBegin_def intro: close_inv_same [OF c]\<close>)
qed

definition sys_inv :: "('a, 'c, 'v, 'r, 's) system \<Rightarrow> bool" where
  "sys_inv s \<longleftrightarrow> sync_inv s \<and> conserved s \<and> close_inv s"

lemma step_sys_inv: "sys_inv s \<Longrightarrow> step k l s s' \<Longrightarrow> sys_inv s'"
  by (auto simp: sys_inv_def step_iff intro: act_sync_inv act_conserved act_close_inv)

lemma start_close_inv: "NewDefaultEventProcessor k config sampler mgr = Inr s \<Longrightarrow> close_inv s"
  by (auto simp: NewDefaultEventProcessor_def go_bind_eq_Inr close_inv_def split: if_splits)

lemma reachable_inv:
  "reachable k config sampler mgr s \<Longrightarrow> 0 \<le> cg_UserKeysCapacity config \<Longrightarrow> sys_inv s"
proof (induction rule: reachable.induct)
  case (reachable_start s)
  then show ?case
    using start_ok [OF reachable_start] start_close_inv [OF reachable_start(1)] by (simp add: sys_inv_def)
next
  case (reachable_step s l s')
  then show ?case using step_sys_inv by blast
qed

lemma steps_inv: "steps k ls s s' \<Longrightarrow> sys_inv s \<Longrightarrow> sys_inv s'"
  by (induction rule: steps.induct) (auto intro: step_sys_inv)

section \<open>Concrete runs\<close>

text \<open>Runs of the model on the sample instance, for the witnesses and for the two races below.\<close>

definition sampleSdk :: "(string list, sctx, sval, string, nat) sdk" where
  "sampleSdk = \<lparr>sk_V = sampleV, sk_A = sampleA, sk_C = sampleC, sk_R = sampleR, sk_smp = sampleS,
     sk_runtime = \<lparr>rt_Version = ''go'', rt_GOOS = ''linux'', rt_GOARCH = ''amd64''\<rparr>, sk_fuel = 3\<rparr>"

definition sampleInit :: "(string list, sctx, sval, string, nat) system" where
  "sampleInit = \<lparr>sy_inbox = makeChan 100, sy_pc = AtSelect, sy_ed = sampleDispatcher,
     sy_mgr = None, sy_workers = replicate maxFlushWorkers Idle, sy_calls = [],
     sy_replied = [], sy_close = CloseIdle, sy_inboxFullOnce = False, sy_loggers = [],
     sy_sent = [], sy_accepted = [], sy_discarded = [], sy_crash = None\<rparr>"

lemma sampleInit_start: "NewDefaultEventProcessor sampleSdk sampleConfig 0 None = Inr sampleInit"
  by (simp add: NewDefaultEventProcessor_def startEventDispatcher_def newEventsOutbox_def sampleConfig_def
      sampleInit_def sampleDispatcher_def sampleOutbox_def Let_def)

lemma sampleInit_reachable: "reachable sampleSdk sampleConfig 0 None sampleInit"
  by (rule reachable_start) (rule sampleInit_start)

lemma sampleConfig_keys [simp]: "0 \<le> cg_UserKeysCapacity sampleConfig"
  by (simp add: sampleConfig_def)

definition okResult :: "EventSenderResult" where
  "okResult = \<lparr>sr_Success = True, sr_MustShutDown = False, sr_TimeFromServer = 0\<rparr>"

text \<open>Record an event, and have the dispatcher handle it; flush, likewise; deliver as worker \<open>i\<close>.\<close>

definition recordTrace :: "bytes \<Rightarrow> (sctx, sval, string) label list" where
  "recordTrace data = [LPost True (RecordRawEvent data), LReceive, LHandle 0]"

definition flushTrace :: "(sctx, sval, string) label list" where
  "flushTrace = [LPost True Flush, LReceive, LHandle 0]"

definition deliverTrace :: "nat \<Rightarrow> (sctx, sval, string) label list" where
  "deliverTrace i = [LTake i, LWorkerSend i okResult, LWorkerPost i, LWorkerDone i]"

definition closeTrace :: "(sctx, sval, string) label list" where
  "closeTrace = [LClose, LClose, LClose, LReceive, LHandle 0, LReceive, LHandle 0]"

lemmas trace_defs = recordTrace_def flushTrace_def deliverTrace_def closeTrace_def

definition lossTrace :: "(sctx, sval, string) label list" where
  "lossTrace = recordTrace ''a'' @ flushTrace @ recordTrace ''b'' @ closeTrace @ deliverTrace 0 @
     [LWait, LShutdownReply]"

lemma lossTrace_run:
  "case run sampleSdk lossTrace sampleInit of
     None \<Rightarrow> False
   | Some s \<Rightarrow> sy_close s = CloseReturned \<and> sy_accepted s = [RawEvent ''a'', RawEvent ''b''] \<and>
       sentEvents s = [RawEvent ''a''] \<and> sy_discarded s = []"
  by code_simp

definition stuckTrace :: "(sctx, sval, string) label list" where
  "stuckTrace =
     concat (map (\<lambda>i. recordTrace ''a'' @ flushTrace @ [LTake i]) [0, 1, 2, 3, 4]) @
     recordTrace ''a'' @ flushTrace @ closeTrace @
     concat (map (\<lambda>i. [LWorkerSend i okResult, LWorkerPost i, LWorkerDone i]) [0, 1, 2, 3, 4]) @
     [LTake 0, LWorkerSend 0 okResult]"

lemma stuckTrace_run:
  "case run sampleSdk stuckTrace sampleInit of
     None \<Rightarrow> False
   | Some s \<Rightarrow> sy_close s = CloseWait \<and> sy_pc s = WaitShutdown \<and> sy_workers s ! 0 = Posting okResult \<and>
       length (ch_buf (di_senderResultCh (sy_ed s))) = 5"
  by code_simp

section \<open>Safety\<close>

text \<open>
  C5: In every reachable state of an event processor whose user key capacity is not negative, no
  goroutine has panicked: no send hits a closed channel and the wait group never goes negative. The
  wait group counts exactly the payloads that are queued or in the hands of a worker, both channels
  keep to their capacities, and they are closed only once the dispatcher has shut down.
\<close>

theorem system_safe:
  assumes "reachable k config sampler mgr s" and "0 \<le> cg_UserKeysCapacity config"
  shows "sy_crash s = None \<and>
    di_workersGroup (sy_ed s) =
      int (length (ch_buf (di_flushCh (sy_ed s))) + length (filter busy (sy_workers s))) \<and>
    length (ch_buf (di_flushCh (sy_ed s))) \<le> 1 \<and>
    length (ch_buf (di_senderResultCh (sy_ed s))) \<le> 5 \<and>
    length (ch_buf (sy_inbox s)) \<le> ch_cap (sy_inbox s) \<and>
    (ch_closed (di_flushCh (sy_ed s)) = (sy_pc s \<in> {ReplyShutdown, Stopped})) \<and>
    (ch_closed (di_senderResultCh (sy_ed s)) = (sy_pc s \<in> {ReplyShutdown, Stopped}))"
proof -
  have "sync_inv s" using reachable_inv [OF assms] by (simp add: sys_inv_def)
  moreover have "afterClose (sy_pc s) = (sy_pc s \<in> {ReplyShutdown, Stopped})"
    by (cases "sy_pc s") simp_all
  ultimately show ?thesis
    by (simp add: sync_inv_def shared_ok_def chan_ok_def busyCount_def maxFlushWorkers_def)
qed

theorem system_safe_witness:
  "sy_crash sampleInit = None \<and> di_workersGroup (sy_ed sampleInit) = 0"
  using system_safe [OF sampleInit_reachable sampleConfig_keys]
  by (simp add: sampleInit_def sampleDispatcher_def)

text \<open>
  C1: No event is lost or duplicated inside the processor: in every reachable state, each event that
  entered the outbox (as a multiset) is in exactly one place: in the outbox, in a queued payload, in
  the hands of a worker, in exactly one call of the sender, or among those thrown away when the server
  told the SDK to shut down.
\<close>

theorem events_conserved:
  assumes "reachable k config sampler mgr s" and "0 \<le> cg_UserKeysCapacity config"
  shows "mset (sy_accepted s) =
    mset (outboxEvents (sy_ed s)) + mset (queuedEvents (sy_ed s)) +
    mset (concat (map workingEvents (sy_workers s))) + mset (sentEvents s) + mset (sy_discarded s)"
  using reachable_inv [OF assms] by (simp add: sys_inv_def conserved_def inFlight_def add.assoc)

theorem events_conserved_witness:
  "\<exists>s. reachable sampleSdk sampleConfig 0 None s \<and> sy_accepted s = [RawEvent ''a'', RawEvent ''b''] \<and>
    mset [RawEvent ''a'', RawEvent ''b''] =
      mset (outboxEvents (sy_ed s)) + mset (queuedEvents (sy_ed s)) +
      mset (concat (map workingEvents (sy_workers s))) + mset (sentEvents s) + mset (sy_discarded s)"
proof -
  obtain s where s: "run sampleSdk lossTrace sampleInit = Some s"
    "sy_accepted s = [RawEvent ''a'', RawEvent ''b'']"
    using lossTrace_run by (auto split: option.splits)
  have r: "reachable sampleSdk sampleConfig 0 None s"
    by (rule run_reachable [OF sampleInit_reachable s(1)])
  from events_conserved [OF r sampleConfig_keys] r s(2) show ?thesis by auto
qed

lemma idle_nothing:
  assumes "sys_inv s" and "di_workersGroup (sy_ed s) = 0"
  shows "inFlight s = {#}" and "filter busy (sy_workers s) = []" and "ch_buf (di_flushCh (sy_ed s)) = []"
proof -
  have "di_workersGroup (sy_ed s) = int (length (ch_buf (di_flushCh (sy_ed s))) + busyCount (sy_workers s))"
    using assms(1) by (simp add: sys_inv_def sync_inv_def shared_ok_def)
  then have "length (ch_buf (di_flushCh (sy_ed s))) + busyCount (sy_workers s) = 0"
    using assms(2) by (simp only: of_nat_eq_0_iff)
  then have b: "busyCount (sy_workers s) = 0" "ch_buf (di_flushCh (sy_ed s)) = []" by simp_all
  then show f: "filter busy (sy_workers s) = []" and "ch_buf (di_flushCh (sy_ed s)) = []"
    by (simp_all add: busyCount_def)
  have "workingEvents w = []" if "w \<in> set (sy_workers s)" for w
    using f that by (cases w) (auto simp: filter_empty_conv)
  then have "concat (map workingEvents (sy_workers s)) = []" by simp
  then show "inFlight s = {#}" using b(2) by (simp add: inFlight_def queuedEvents_def)
qed

text \<open>
  C7: When \<open>workersGroup.Wait()\<close> returns, be it for \<open>FlushBlocking\<close> or for \<open>Close\<close>, every payload
  that was flushed has been handed to the sender and all its work is done: nothing is queued, no
  worker is busy, and what was accepted is in the outbox, was sent, or was discarded.
\<close>

theorem wait_means_delivered:
  assumes "reachable k config sampler mgr s" and "0 \<le> cg_UserKeysCapacity config"
    and "step k LWait s s'"
  shows "ch_buf (di_flushCh (sy_ed s)) = [] \<and> filter busy (sy_workers s) = [] \<and>
    mset (sy_accepted s) = mset (outboxEvents (sy_ed s)) + mset (sentEvents s) + mset (sy_discarded s)"
proof -
  have i: "sys_inv s" by (rule reachable_inv [OF assms(1,2)])
  have "di_workersGroup (sy_ed s) = 0"
    using assms(3) by (auto simp: step_iff waitReturns_def split: if_splits)
  note z = idle_nothing [OF i this]
  then show ?thesis using i by (simp add: sys_inv_def conserved_def)
qed

definition waitTrace :: "(sctx, sval, string) label list" where
  "waitTrace = recordTrace ''a'' @
     [LCallBegin (FlushBlocking 0), LCallSend 0, LReceive, LHandle 0] @ deliverTrace 0"

lemma waitTrace_run:
  "case run sampleSdk waitTrace sampleInit of
     None \<Rightarrow> False
   | Some s \<Rightarrow> sy_crash s = None \<and> sy_pc s = WaitFlush 0 \<and> di_workersGroup (sy_ed s) = 0 \<and>
       sy_accepted s = [RawEvent ''a''] \<and> sentEvents s = [RawEvent ''a'']"
  by code_simp

theorem wait_means_delivered_witness:
  "\<exists>s s'. step sampleSdk LWait s s' \<and> sy_accepted s = [RawEvent ''a''] \<and>
    filter busy (sy_workers s) = []"
proof -
  obtain s where s: "run sampleSdk waitTrace sampleInit = Some s" "sy_crash s = None"
    "sy_pc s = WaitFlush 0" "di_workersGroup (sy_ed s) = 0" "sy_accepted s = [RawEvent ''a'']"
    using waitTrace_run by (auto split: option.splits)
  have r: "reachable sampleSdk sampleConfig 0 None s"
    by (rule run_reachable [OF sampleInit_reachable s(1)])
  have "waitReturns s = Some (s\<lparr>sy_replied := 0 # sy_replied s, sy_pc := AtSelect\<rparr>)"
    using s(3,4) by (simp add: waitReturns_def)
  then have st: "step sampleSdk LWait s (s\<lparr>sy_replied := 0 # sy_replied s, sy_pc := AtSelect\<rparr>)"
    using s(2) by (intro step_act) simp_all
  from wait_means_delivered [OF r sampleConfig_keys st] st s(5) show ?thesis by blast
qed

end
