(* ===== verification/Processor_Shutdown.thy ===== *)
theory Processor_Shutdown
  imports Processor_Properties
begin

text \<open>
  Shutting down: what is true after \<open>Close\<close> has returned, and the two races in \<open>Close\<close> that the
  model shows: events that arrive while an earlier flush still waits for a worker are lost, and
  \<open>Close\<close> never returns when a sixth result finds the result channel full.
\<close>

section \<open>What the callers can change\<close>

fun isCaller :: "('c, 'v, 'r) label \<Rightarrow> bool" where
  "isCaller (LPost ready m) \<longleftrightarrow> True"
| "isCaller (LCallBegin kind) \<longleftrightarrow> True"
| "isCaller (LCallSend i) \<longleftrightarrow> True"
| "isCaller (LCallReturn i) \<longleftrightarrow> True"
| "isCaller (LCallTimeout i) \<longleftrightarrow> True"
| "isCaller LClose \<longleftrightarrow> True"
| "isCaller (LStreamInit si) \<longleftrightarrow> True"
| "isCaller _ \<longleftrightarrow> False"

fun isWorker :: "('c, 'v, 'r) label \<Rightarrow> bool" where
  "isWorker (LTake i) \<longleftrightarrow> True"
| "isWorker (LWorkerSend i r) \<longleftrightarrow> True"
| "isWorker (LWorkerPost i) \<longleftrightarrow> True"
| "isWorker (LWorkerDone i) \<longleftrightarrow> True"
| "isWorker _ \<longleftrightarrow> False"

text \<open>The part of the state that the dispatcher and the workers own.\<close>

definition same_core :: "('a, 'c, 'v, 'r, 's) system \<Rightarrow> ('a, 'c, 'v, 'r, 's) system \<Rightarrow> bool" where
  "same_core s s' \<longleftrightarrow> sy_pc s' = sy_pc s \<and> sy_ed s' = sy_ed s \<and> sy_workers s' = sy_workers s \<and>
     sy_sent s' = sy_sent s \<and> sy_accepted s' = sy_accepted s \<and> sy_discarded s' = sy_discarded s \<and>
     sy_replied s' = sy_replied s"

lemma enqueue_core:
  "enqueue m s = Some s' \<Longrightarrow> \<not> ch_closed (sy_inbox s) \<Longrightarrow> sy_pc s \<noteq> AtSelect \<Longrightarrow>
     same_core s s' \<and> sy_calls s' = sy_calls s \<and> sy_close s' = sy_close s"
  by (erule enqueueE) (auto simp: same_core_def)

lemma same_core_upd [simp]:
  "same_core (s\<lparr>sy_calls := cs\<rparr>) s' = same_core s s'" "same_core (s\<lparr>sy_close := c\<rparr>) s' = same_core s s'"
  by (simp_all add: same_core_def)

lemma caller_core:
  assumes "act k l s = Some s'" and "isCaller l" and "sy_pc s \<noteq> AtSelect" and "\<not> ch_closed (sy_inbox s)"
  shows "same_core s s'"
proof (cases l)
  case (LPost ready m)
  with assms show ?thesis
    by (auto simp: postNonBlocking_def same_core_def [of s s] dest!: enqueue_core split: if_splits)
      (auto simp: same_core_def)
next
  case (LCallSend i)
  with assms show ?thesis by (auto elim!: callSendE dest!: enqueue_core)
next
  case LClose
  with assms have "closeStep s = Some s'" by simp
  then show ?thesis
    using assms by (cases rule: closeStepE) (auto dest!: enqueue_core simp: same_core_def [of s])
qed (use assms in \<open>auto simp: callBegin_def same_core_def elim!: callReturnE callTimeoutE\<close>)

text \<open>The dispatcher's own actions, by where it is.\<close>

lemma dispatcher_blocked:
  assumes "act k l s = Some s'" and "\<not> isCaller l" and "\<not> isWorker l"
  shows "sy_pc s \<noteq> Stopped"
    and "di_workersGroup (sy_ed s) \<noteq> 0 \<Longrightarrow> sy_pc s \<notin> {WaitShutdown} \<union> range WaitFlush \<union> range WaitSync"
  using assms
  by (cases l; auto simp: receiveMessage_def handleMessage_def waitReturns_def shutdownReply_def
      receiveResult_def tickStep_def split: if_splits)+

section \<open>After \<open>Close\<close>\<close>

lemma stopped_step:
  assumes inv: "sys_inv s" and pc: "sy_pc s = Stopped" and st: "step k l s s'"
  shows "sy_pc s' = Stopped \<and> sy_sent s' = sy_sent s \<and> sy_accepted s' = sy_accepted s \<and>
    sy_replied s' = sy_replied s"
proof -
  have act: "act k l s = Some s'" using st by blast
  have sync: "sync_inv s" using inv by (simp add: sys_inv_def)
  have wg: "di_workersGroup (sy_ed s) = 0"
    using sync pc by (simp add: sync_inv_def shared_ok_def)
  have idle: "i < length (sy_workers s) \<Longrightarrow> \<not> busy (sy_workers s ! i)" for i
    using busy_open(1) [OF sync] pc by auto
  show ?thesis
  proof (cases "isCaller l")
    case True
    then have "same_core s s'" using caller_core [OF act] pc sync by (simp add: sync_inv_def)
    with pc show ?thesis by (simp add: same_core_def)
  next
    case False
    then have "isWorker l" using dispatcher_blocked(1) [OF act] pc by blast
    then show ?thesis
    proof (cases l)
      case (LTake i)
      with act pc idle_nothing(3) [OF inv wg] show ?thesis by (auto elim!: workerTakeE)
    next
      case (LWorkerSend i r)
      with act idle [of i] show ?thesis by (auto elim!: workerSendE)
    next
      case (LWorkerPost i)
      with act idle [of i] show ?thesis by (auto simp: workerPost_def split: if_splits worker.splits)
    next
      case (LWorkerDone i)
      with act idle [of i] show ?thesis by (auto simp: workerDone_def split: if_splits)
    qed simp_all
  qed
qed

lemma stopped_steps:
  "steps k ls s s' \<Longrightarrow> sys_inv s \<Longrightarrow> sy_pc s = Stopped \<Longrightarrow>
     sy_pc s' = Stopped \<and> sy_sent s' = sy_sent s \<and> sy_accepted s' = sy_accepted s \<and>
     sy_replied s' = sy_replied s"
proof (induction rule: steps.induct)
  case (steps_snoc ls s s' l s'')
  have i: "sys_inv s'" by (rule steps_inv [OF steps_snoc.hyps(1) steps_snoc.prems(1)])
  have ih: "sy_pc s' = Stopped" "sy_sent s' = sy_sent s" "sy_accepted s' = sy_accepted s"
    "sy_replied s' = sy_replied s"
    using steps_snoc.IH [OF steps_snoc.prems] by simp_all
  show ?case using stopped_step [OF i ih(1) steps_snoc.hyps(2)] unfolding ih(2-4) .
qed simp

text \<open>
  C11: Once \<open>Close\<close> has returned the processor is quiet for good: nothing is queued, no worker is busy,
  and whatever any goroutine does later, the sender is never called again and no event is accepted.
\<close>

theorem quiet_after_close:
  assumes "reachable k config sampler mgr s" and "0 \<le> cg_UserKeysCapacity config"
    and "sy_close s = CloseReturned" and "steps k ls s s'"
  shows "ch_buf (di_flushCh (sy_ed s)) = [] \<and> filter busy (sy_workers s) = [] \<and>
    sy_sent s' = sy_sent s \<and> sy_accepted s' = sy_accepted s"
proof -
  have i: "sys_inv s" by (rule reachable_inv [OF assms(1,2)])
  then have pc: "sy_pc s = Stopped" using assms(3) by (simp add: sys_inv_def close_inv_def)
  then have "di_workersGroup (sy_ed s) = 0"
    using i by (simp add: sys_inv_def sync_inv_def shared_ok_def)
  with idle_nothing [OF i] stopped_steps [OF assms(4) i pc] show ?thesis by blast
qed

lemma lossTrace_state:
  obtains s where "reachable sampleSdk sampleConfig 0 None s" "sy_close s = CloseReturned"
    "sy_accepted s = [RawEvent ''a'', RawEvent ''b'']" "sentEvents s = [RawEvent ''a'']"
    "sy_discarded s = []"
proof -
  obtain s where "run sampleSdk lossTrace sampleInit = Some s" "sy_close s = CloseReturned"
    "sy_accepted s = [RawEvent ''a'', RawEvent ''b'']" "sentEvents s = [RawEvent ''a'']"
    "sy_discarded s = []"
    using lossTrace_run by (auto split: option.splits)
  with run_reachable [OF sampleInit_reachable] that show thesis by blast
qed

theorem quiet_after_close_witness:
  "\<exists>s. sy_close s = CloseReturned \<and> reachable sampleSdk sampleConfig 0 None s \<and>
    filter busy (sy_workers s) = []"
proof -
  obtain s where s: "reachable sampleSdk sampleConfig 0 None s" "sy_close s = CloseReturned"
    by (rule lossTrace_state)
  from quiet_after_close [OF s(1) sampleConfig_keys s(2) steps_Nil] s show ?thesis by blast
qed

text \<open>
  C28: \<open>Close\<close> can lose events. There is a run in which two events are accepted, nothing is discarded
  and no error occurs, and after \<open>Close\<close> has returned only the first was handed to the sender: the
  flush of \<open>Close\<close> found the previous payload still in \<open>flushCh\<close> and did nothing. No later step
  sends the second event.
\<close>

theorem close_loses_event:
  "\<exists>s. reachable sampleSdk sampleConfig 0 None s \<and> sy_close s = CloseReturned \<and>
     sy_accepted s = [RawEvent ''a'', RawEvent ''b''] \<and> sy_discarded s = [] \<and>
     (\<nexists>ls s'. steps sampleSdk ls s s' \<and> RawEvent ''b'' \<in> set (sentEvents s'))"
proof -
  obtain s where s: "reachable sampleSdk sampleConfig 0 None s" "sy_close s = CloseReturned"
    "sy_accepted s = [RawEvent ''a'', RawEvent ''b'']" "sentEvents s = [RawEvent ''a'']"
    "sy_discarded s = []"
    by (rule lossTrace_state)
  have i: "sys_inv s" by (rule reachable_inv [OF s(1) sampleConfig_keys])
  then have "sy_pc s = Stopped" using s(2) by (simp add: sys_inv_def close_inv_def)
  then have "RawEvent ''b'' \<notin> set (sentEvents s')" if "steps sampleSdk ls s s'" for ls s'
    using stopped_steps [OF that i] s(4) by (simp add: sentEvents_def)
  with s show ?thesis by blast
qed

section \<open>A sixth result\<close>

definition stuck :: "('a, 'c, 'v, 'r, 's) system \<Rightarrow> bool" where
  "stuck s \<longleftrightarrow> sys_inv s \<and> sy_pc s = WaitShutdown \<and> sy_close s = CloseWait \<and>
     length (ch_buf (di_senderResultCh (sy_ed s))) = maxFlushWorkers \<and>
     (\<exists>i r. i < length (sy_workers s) \<and> sy_workers s ! i = Posting r)"

lemma stuck_step:
  assumes stuck: "stuck s" and st: "step k l s s'"
  shows "stuck s'"
proof -
  have act: "act k l s = Some s'" using st by blast
  have inv: "sys_inv s" and pc: "sy_pc s = WaitShutdown" and cl: "sy_close s = CloseWait"
    and full: "length (ch_buf (di_senderResultCh (sy_ed s))) = maxFlushWorkers"
    using stuck by (simp_all add: stuck_def)
  have sync: "sync_inv s" using inv by (simp add: sys_inv_def)
  have inv': "sys_inv s'" by (rule step_sys_inv [OF inv st])
  obtain j r where j: "j < length (sy_workers s)" "sy_workers s ! j = Posting r"
    using stuck by (auto simp: stuck_def)
  have wg: "0 < di_workersGroup (sy_ed s)" using busy_open(2) [OF sync j(1)] j(2) by simp
  have open': "\<not> ch_closed (di_senderResultCh (sy_ed s))"
    using open_state(3) [OF sync] pc by simp
  have cap: "ch_cap (di_senderResultCh (sy_ed s)) = maxFlushWorkers"
    using sync by (simp add: sync_inv_def shared_ok_def)
  show ?thesis
  proof (cases "isCaller l")
    case True
    then have c: "same_core s s'" using caller_core [OF act] pc sync by (simp add: sync_inv_def)
    then have "sy_close s' = CloseWait"
      using inv' pc by (auto simp: sys_inv_def close_inv_def same_core_def split: if_splits)
    with c stuck inv' show ?thesis by (simp add: stuck_def same_core_def)
  next
    case False
    then have "isWorker l" using dispatcher_blocked(2) [OF act] pc wg by auto
    then show ?thesis
    proof (cases l)
      case (LTake i)
      with act j stuck inv' show ?thesis
        by (cases "i = j") (auto elim!: workerTakeE simp: stuck_def intro!: exI [of _ j])
    next
      case (LWorkerSend i r)
      with act j stuck inv' show ?thesis
        by (cases "i = j") (auto elim!: workerSendE simp: stuck_def intro!: exI [of _ j])
    next
      case (LWorkerPost i)
      with act open' have "length (ch_buf (di_senderResultCh (sy_ed s))) < maxFlushWorkers"
        using cap by (auto elim!: workerPostE)
      with full show ?thesis by simp
    next
      case (LWorkerDone i)
      with act wg j stuck inv' show ?thesis
        by (cases "i = j") (auto elim!: workerDoneE simp: stuck_def intro!: exI [of _ j])
    qed simp_all
  qed
qed

lemma stuck_steps: "steps k ls s s' \<Longrightarrow> stuck s \<Longrightarrow> stuck s'"
  by (induction rule: steps.induct) (auto intro: stuck_step)

text \<open>
  C29: \<open>Close\<close> can hang for ever. There is a reachable state in which \<open>Close\<close> waits for its reply and
  from which no sequence of steps whatever makes it return: five results fill the result channel,
  the worker that handles a sixth payload waits for room in it, and the dispatcher, the only reader,
  waits for that worker.
\<close>

theorem close_deadlock:
  "\<exists>s. reachable sampleSdk sampleConfig 0 None s \<and> sy_close s = CloseWait \<and> sy_crash s = None \<and>
     (\<nexists>ls s'. steps sampleSdk ls s s' \<and> sy_close s' = CloseReturned)"
proof -
  obtain s where s: "run sampleSdk stuckTrace sampleInit = Some s" "sy_close s = CloseWait"
    "sy_pc s = WaitShutdown" "sy_workers s ! 0 = Posting okResult"
    "length (ch_buf (di_senderResultCh (sy_ed s))) = 5"
    using stuckTrace_run by (auto split: option.splits)
  have r: "reachable sampleSdk sampleConfig 0 None s"
    by (rule run_reachable [OF sampleInit_reachable s(1)])
  have i: "sys_inv s" by (rule reachable_inv [OF r sampleConfig_keys])
  then have "length (sy_workers s) = maxFlushWorkers" "sy_crash s = None"
    by (simp_all add: sys_inv_def sync_inv_def shared_ok_def)
  with s i have "stuck s" by (auto simp: stuck_def maxFlushWorkers_def intro!: exI [of _ 0])
  then have "sy_close s' \<noteq> CloseReturned" if "steps sampleSdk ls s s'" for ls s'
    using stuck_steps [OF that] by (simp add: stuck_def)
  with r s(2) \<open>sy_crash s = None\<close> show ?thesis by blast
qed

end
