(* ===== verification/Processor_Liveness.thy ===== *)
theory Processor_Liveness
  imports Processor_Shutdown
begin

text \<open>
  Progress of the event processor: when \<open>workersGroup.Wait()\<close> is sure to return. While the dispatcher
  waits, only the workers can change what it waits for, and each of their actions brings the count
  nearer to zero; none of them is ever stuck as long as the result channel has room for the results
  that are still to come.
\<close>

section \<open>The work that is left\<close>

text \<open>The number of actions the workers still have to take for what they hold.\<close>

fun actionsLeft :: "('c, 'v, 'r) worker \<Rightarrow> nat" where
  "actionsLeft (Working _) = 3"
| "actionsLeft (Posting _) = 2"
| "actionsLeft Finishing = 1"
| "actionsLeft _ = 0"

fun resultsToCome :: "('c, 'v, 'r) worker \<Rightarrow> nat" where
  "resultsToCome (Working _) = 1"
| "resultsToCome (Posting _) = 1"
| "resultsToCome _ = 0"

fun workingPayloads :: "('c, 'v, 'r) worker \<Rightarrow> ('c, 'v, 'r) flushPayload list" where
  "workingPayloads (Working p) = [p]"
| "workingPayloads _ = []"

definition workLeft :: "('a, 'c, 'v, 'r, 's) system \<Rightarrow> nat" where
  "workLeft s = 4 * length (ch_buf (di_flushCh (sy_ed s))) + sum_list (map actionsLeft (sy_workers s))"

text \<open>The results that are in the channel or may still come, if nothing new is flushed.\<close>

definition resultsDue :: "('a, 'c, 'v, 'r, 's) system \<Rightarrow> nat" where
  "resultsDue s = length (ch_buf (di_senderResultCh (sy_ed s))) +
     length (ch_buf (di_flushCh (sy_ed s))) + sum_list (map resultsToCome (sy_workers s))"

text \<open>The payloads that are queued or being worked on, and that their formatting ends.\<close>

definition openPayloads :: "('a, 'c, 'v, 'r, 's) system \<Rightarrow> ('c, 'v, 'r) flushPayload list" where
  "openPayloads s =
     ch_buf (di_flushCh (sy_ed s)) @ concat (map workingPayloads (sy_workers s))"

definition formatted :: "('a, 'c, 'v, 'r, 's) sdk \<Rightarrow> ('a, 'c, 'v, 'r, 's) system \<Rightarrow> bool" where
  "formatted k s \<longleftrightarrow>
     (\<forall>p \<in> set (openPayloads s). outputOf k (di_config (sy_ed s)) p \<noteq> None)"

fun waiting :: "('c, 'v, 'r) dispatcherPc \<Rightarrow> bool" where
  "waiting (WaitFlush i) \<longleftrightarrow> True"
| "waiting (WaitSync i) \<longleftrightarrow> True"
| "waiting WaitShutdown \<longleftrightarrow> True"
| "waiting _ \<longleftrightarrow> False"

lemma waiting_iff: "waiting pc \<longleftrightarrow> pc \<in> {WaitShutdown} \<union> range WaitFlush \<union> range WaitSync"
  by (cases pc) auto

lemma sum_list_upd:
  fixes f :: "'x \<Rightarrow> nat"
  shows "i < length xs \<Longrightarrow> sum_list (map f (xs[i := w])) + f (xs ! i) = sum_list (map f xs) + f w"
  by (induction xs arbitrary: i) (auto split: nat.splits)

lemma openPayloads_upd:
  "i < length ws \<Longrightarrow> set (concat (map workingPayloads (ws[i := w]))) \<subseteq>
     set (concat (map workingPayloads ws)) \<union> set (workingPayloads w)"
  using set_update_subset_insert [of ws i w] by auto

lemma openPayloads_sub:
  assumes "i < length (sy_workers s)" and "sy_workers s' = (sy_workers s)[i := w]"
    and "set (ch_buf (di_flushCh (sy_ed s'))) \<union> set (workingPayloads w) \<subseteq> set (openPayloads s)"
  shows "set (openPayloads s') \<subseteq> set (openPayloads s)"
  using openPayloads_upd [OF assms(1), of w] assms(2,3) by (auto simp: openPayloads_def)

lemma openPayloads_mem:
  "i < length ws \<Longrightarrow> ws ! i = Working p \<Longrightarrow> p \<in> set (concat (map workingPayloads ws))"
  by (force dest: nth_mem)

lemma workLeft_le:
  assumes "sync_inv s"
  shows "workLeft s \<le> 4 * nat (di_workersGroup (sy_ed s))"
proof -
  have "sum_list (map actionsLeft ws) \<le> 3 * busyCount ws" for ws :: "('b, 'c, 'd) worker list"
  proof (induction ws)
    case (Cons w ws)
    then show ?case by (cases w) (simp_all add: busyCount_def)
  qed (simp add: busyCount_def)
  from this [of "sy_workers s"] show ?thesis
    using assms by (simp add: workLeft_def sync_inv_def shared_ok_def)
qed

section \<open>A step while the dispatcher waits\<close>

text \<open>One step keeps what the progress rests on, and a worker's step is progress.\<close>

definition progresses ::
  "('a, 'c, 'v, 'r, 's) sdk \<Rightarrow> ('a, 'c, 'v, 'r, 's) system \<Rightarrow> ('a, 'c, 'v, 'r, 's) system \<Rightarrow> bool" where
  "progresses k s s' \<longleftrightarrow> sy_pc s' = sy_pc s \<and> resultsDue s' \<le> resultsDue s \<and> formatted k s'"

lemma worker_progress:
  assumes f: "formatted k s" and i: "i < length (sy_workers s)"
    and s': "sy_workers s' = (sy_workers s)[i := w]" "sy_pc s' = sy_pc s"
      "di_config (sy_ed s') = di_config (sy_ed s)"
    and less: "4 * length (ch_buf (di_flushCh (sy_ed s'))) + actionsLeft w <
      4 * length (ch_buf (di_flushCh (sy_ed s))) + actionsLeft (sy_workers s ! i)"
    and due: "length (ch_buf (di_senderResultCh (sy_ed s'))) + length (ch_buf (di_flushCh (sy_ed s'))) +
        resultsToCome w \<le>
      length (ch_buf (di_senderResultCh (sy_ed s))) + length (ch_buf (di_flushCh (sy_ed s))) +
        resultsToCome (sy_workers s ! i)"
    and sub: "set (ch_buf (di_flushCh (sy_ed s'))) \<union> set (workingPayloads w) \<subseteq> set (openPayloads s)"
  shows "progresses k s s' \<and> workLeft s' < workLeft s"
proof -
  have "set (openPayloads s') \<subseteq> set (openPayloads s)" by (rule openPayloads_sub [OF i s'(1) sub])
  then have "formatted k s'" using f s'(3) by (auto simp: formatted_def)
  then show ?thesis
    using sum_list_upd [OF i, of actionsLeft w] sum_list_upd [OF i, of resultsToCome w] s' less due
    by (simp add: progresses_def workLeft_def resultsDue_def)
qed

lemma waiting_worker:
  assumes sync: "sync_inv s" and w: "waiting (sy_pc s)" and f: "formatted k s"
    and act: "act k l s = Some s'" and l: "isWorker l"
  shows "progresses k s s' \<and> workLeft s' < workLeft s"
proof -
  have pc: "\<not> afterClose (sy_pc s)" using w by (cases "sy_pc s") simp_all
  note o = open_state [OF sync pc]
  from l show ?thesis
  proof (cases l)
    case (LTake i)
    then have "workerTake i s = Some s'" using act by simp
    then show ?thesis
    proof (cases rule: workerTakeE)
      case (takes p ps)
      then show ?thesis
        by (intro worker_progress [OF f, of i s' "Working p"]) (auto simp: openPayloads_def)
    qed (use o(2) in simp)
  next
    case (LWorkerSend i r)
    then have "workerSend k i r s = Some s'" using act by simp
    then show ?thesis
    proof (cases rule: workerSendE)
      case (sends p kind body n x)
      then have "workingPayloads x = []" "actionsLeft x < 3" "resultsToCome x \<le> 1" by auto
      with sends(1,2,4) show ?thesis
        by (intro worker_progress [OF f, of i s' x]) (simp_all add: openPayloads_def)
    next
      case (nothing p n)
      then show ?thesis
        by (intro worker_progress [OF f, of i s' Finishing]) (simp_all add: openPayloads_def)
    qed
  next
    case (LWorkerPost i)
    then have "workerPost i s = Some s'" using act by simp
    then show ?thesis using o(3)
    proof (cases rule: workerPostE)
      case (1 r)
      then show ?thesis
        by (intro worker_progress [OF f, of i s' Finishing]) (simp_all add: openPayloads_def)
    qed
  next
    case (LWorkerDone i)
    then have d: "workerDone i s = Some s'" using act by simp
    then have "i < length (sy_workers s)" "busy (sy_workers s ! i)"
      by (auto simp: workerDone_def split: if_splits)
    from d busy_open(2) [OF sync this] show ?thesis
    proof (cases rule: workerDoneE)
      case 1
      then show ?thesis
        by (intro worker_progress [OF f, of i s' Idle]) (simp_all add: openPayloads_def)
    qed
  qed simp_all
qed

lemma waiting_step:
  assumes inv: "sys_inv s" and w: "waiting (sy_pc s)" and f: "formatted k s"
    and st: "step k l s s'" and l: "l \<noteq> LWait"
  shows "progresses k s s' \<and> workLeft s' + (if isWorker l then 1 else 0) \<le> workLeft s"
proof -
  have act: "act k l s = Some s'" using st by blast
  have sync: "sync_inv s" using inv by (simp add: sys_inv_def)
  show ?thesis
  proof (cases "isWorker l")
    case True
    with waiting_worker [OF sync w f act] show ?thesis by simp
  next
    case False
    have "isCaller l"
    proof (rule ccontr)
      assume "\<not> isCaller l"
      with False l act w show False
        by (cases l) (auto simp: receiveMessage_def handleMessage_def shutdownReply_def
          receiveResult_def tickStep_def split: if_splits dispatcherPc.splits)
    qed
    then have "same_core s s'"
      using caller_core [OF act] w sync by (cases "sy_pc s") (simp_all add: sync_inv_def)
    with f False show ?thesis
      by (simp add: same_core_def progresses_def workLeft_def resultsDue_def formatted_def openPayloads_def)
  qed
qed

lemma waiting_steps:
  "steps k ls s s' \<Longrightarrow> sys_inv s \<Longrightarrow> waiting (sy_pc s) \<Longrightarrow> formatted k s \<Longrightarrow> LWait \<notin> set ls \<Longrightarrow>
     progresses k s s' \<and> workLeft s' + length (filter isWorker ls) \<le> workLeft s"
proof (induction rule: steps.induct)
  case (steps_snoc ls s s' l s'')
  have i: "sys_inv s'" by (rule steps_inv [OF steps_snoc.hyps(1) steps_snoc.prems(1)])
  have ih: "progresses k s s'" "workLeft s' + length (filter isWorker ls) \<le> workLeft s"
    using steps_snoc.IH steps_snoc.prems by simp_all
  then have "waiting (sy_pc s')" "formatted k s'" using steps_snoc.prems(2) by (simp_all add: progresses_def)
  from waiting_step [OF i this steps_snoc.hyps(2)] ih steps_snoc.prems(4) show ?case
    by (auto simp: progresses_def split: if_splits)
qed (simp add: progresses_def)

section \<open>Something can always be done\<close>

lemma worker_enabled:
  assumes inv: "sys_inv s" and w: "waiting (sy_pc s)" and f: "formatted k s"
    and due: "resultsDue s \<le> maxFlushWorkers" and wg: "di_workersGroup (sy_ed s) \<noteq> 0"
  shows "\<exists>l s'. isWorker l \<and> step k l s s'"
proof -
  have sync: "sync_inv s" using inv by (simp add: sys_inv_def)
  have pc: "\<not> afterClose (sy_pc s)" using w by (cases "sy_pc s") simp_all
  note o = open_state [OF sync pc]
  have "\<exists>l. isWorker l \<and> act k l s \<noteq> None"
  proof (cases "filter busy (sy_workers s) = []")
    case True
    then have "busyCount (sy_workers s) = 0" by (simp add: busyCount_def)
    then have "ch_buf (di_flushCh (sy_ed s)) \<noteq> []"
      using wg sync by (auto simp: sync_inv_def shared_ok_def)
    then obtain p ps where q: "ch_buf (di_flushCh (sy_ed s)) = p # ps" by (cases "ch_buf (di_flushCh (sy_ed s))") auto
    have "length (sy_workers s) = 5" "Exited \<notin> set (sy_workers s)"
      using sync pc by (auto simp: sync_inv_def shared_ok_def maxFlushWorkers_def)
    then have n: "0 < length (sy_workers s)" "sy_workers s ! 0 \<noteq> Exited"
      by (simp, metis nth_mem zero_less_numeral)
    moreover have "\<not> busy (sy_workers s ! 0)"
      using True nth_mem [OF n(1)] by (auto simp: filter_empty_conv)
    ultimately have "sy_workers s ! 0 = Idle" by (cases "sy_workers s ! 0") simp_all
    with q n(1) have "act k (LTake 0) s \<noteq> None" by (simp add: workerTake_def chanRecv_def)
    then show ?thesis by (intro exI [of _ "LTake 0"]) simp
  next
    case False
    then obtain i where i: "i < length (sy_workers s)" "busy (sy_workers s ! i)"
      by (auto simp: filter_empty_conv in_set_conv_nth)
    show ?thesis
    proof (cases "sy_workers s ! i")
      case (Working p)
      with i f openPayloads_mem [of i "sy_workers s" p] have "outputOf k (di_config (sy_ed s)) p \<noteq> None"
        by (auto simp: formatted_def openPayloads_def)
      with i Working have "act k (LWorkerSend i r) s \<noteq> None" for r
        by (auto simp: workerSend_def split: option.split)
      then show ?thesis using isWorker.simps(2) by blast
    next
      case (Posting r)
      have "resultsToCome (sy_workers s ! i) \<le> sum_list (map resultsToCome (sy_workers s))"
        by (rule member_le_sum_list) (use i in auto)
      then have "length (ch_buf (di_senderResultCh (sy_ed s))) < maxFlushWorkers"
        using due Posting by (simp add: resultsDue_def)
      moreover have "ch_cap (di_senderResultCh (sy_ed s)) = maxFlushWorkers"
        using sync by (simp add: sync_inv_def shared_ok_def)
      ultimately have "act k (LWorkerPost i) s \<noteq> None"
        using i Posting o(3) by (simp add: workerPost_def chanSend_def)
      then show ?thesis by (intro exI [of _ "LWorkerPost i"]) simp
    next
      case Finishing
      with i have "act k (LWorkerDone i) s \<noteq> None" by (simp add: workerDone_def)
      then show ?thesis by (intro exI [of _ "LWorkerDone i"]) simp
    qed (use i in simp_all)
  qed
  then obtain l s' where "isWorker l" "act k l s = Some s'" by auto
  with o(5) show ?thesis by (auto intro: step_act)
qed

text \<open>
  C6: \<open>Wait\<close> returns. Let the dispatcher wait (for \<open>FlushBlocking\<close>, a synchronisation or \<open>Close\<close>) in a
  reachable state in which the results in the result channel, the queued payloads and the workers
  that still owe a result number at most five, and let the formatting of these payloads end. Then,
  whatever else happens before \<open>Wait\<close> returns, the workers take at most four actions for each payload
  counted by the wait group, the count is not left above zero with every worker stuck, and as soon as
  it is zero \<open>Wait\<close> can return.
\<close>

theorem wait_returns:
  assumes "reachable k config sampler mgr s" and "0 \<le> cg_UserKeysCapacity config"
    and "waiting (sy_pc s)" and "resultsDue s \<le> maxFlushWorkers" and "formatted k s"
    and "steps k ls s s'" and "LWait \<notin> set ls"
  shows "int (length (filter isWorker ls)) \<le> 4 * di_workersGroup (sy_ed s) \<and>
    (if di_workersGroup (sy_ed s') = 0 then \<exists>s''. step k LWait s' s''
     else \<exists>l s''. isWorker l \<and> step k l s' s'')"
proof -
  have i: "sys_inv s" by (rule reachable_inv [OF assms(1,2)])
  have i': "sys_inv s'" by (rule steps_inv [OF assms(6) i])
  have p: "progresses k s s'" "workLeft s' + length (filter isWorker ls) \<le> workLeft s"
    using waiting_steps [OF assms(6) i assms(3,5,7)] by simp_all
  have sync: "sync_inv s" "sync_inv s'" using i i' by (simp_all add: sys_inv_def)
  then have c: "sy_crash s' = None" and "0 \<le> di_workersGroup (sy_ed s)"
    by (simp_all add: sync_inv_def shared_ok_def)
  then have n: "int (length (filter isWorker ls)) \<le> 4 * di_workersGroup (sy_ed s)"
    using workLeft_le [OF sync(1)] p(2) by linarith
  have w: "waiting (sy_pc s')" "formatted k s'" "resultsDue s' \<le> maxFlushWorkers"
    using p(1) assms(3,4) by (simp_all add: progresses_def)
  have "\<exists>s''. step k LWait s' s''" if "di_workersGroup (sy_ed s') = 0"
    using that w(1) c by (cases "sy_pc s'") (auto simp: step_iff waitReturns_def)
  with n worker_enabled [OF i' w] show ?thesis by simp
qed

theorem wait_returns_witness:
  "\<exists>s. sy_pc s = WaitFlush 0 \<and> di_workersGroup (sy_ed s) = 1 \<and>
    (\<exists>l s''. isWorker l \<and> step sampleSdk l s s'')"
proof -
  let ?tr = "recordTrace ''a'' @ [LCallBegin (FlushBlocking 0), LCallSend 0, LReceive, LHandle 0]"
  have "case run sampleSdk ?tr sampleInit of None \<Rightarrow> False
    | Some s \<Rightarrow> sy_pc s = WaitFlush 0 \<and> di_workersGroup (sy_ed s) = 1 \<and> resultsDue s = 1 \<and>
        list_all (\<lambda>p. outputOf sampleSdk (di_config (sy_ed s)) p \<noteq> None) (openPayloads s)"
    by code_simp
  then obtain s where s: "run sampleSdk ?tr sampleInit = Some s" "sy_pc s = WaitFlush 0"
    "di_workersGroup (sy_ed s) = 1" "resultsDue s = 1" "formatted sampleSdk s"
    by (auto simp: formatted_def list_all_iff split: option.splits)
  have r: "reachable sampleSdk sampleConfig 0 None s"
    by (rule run_reachable [OF sampleInit_reachable s(1)])
  have "waiting (sy_pc s)" "resultsDue s \<le> maxFlushWorkers" using s by (simp_all add: maxFlushWorkers_def)
  from wait_returns [OF r sampleConfig_keys this s(5) steps_Nil] s show ?thesis by auto
qed

end
