(* ===== verification/Processor_Calls.thy ===== *)
theory Processor_Calls
  imports Processor_Liveness
begin

text \<open>
  What a caller of the API can rely on: recording never waits, messages are handled in the order in
  which they entered the inbox, the warning about a full inbox is logged once, and every blocking call
  that was sent has exactly one reply to come.
\<close>

section \<open>A caller touches only the inbox\<close>

text \<open>The part of the state that no caller's action changes.\<close>

definition callers_frame :: "('a, 'c, 'v, 'r, 's) system \<Rightarrow> ('a, 'c, 'v, 'r, 's) system \<Rightarrow> bool" where
  "callers_frame s s' \<longleftrightarrow> sy_ed s' = sy_ed s \<and> sy_workers s' = sy_workers s \<and> sy_sent s' = sy_sent s \<and>
     sy_accepted s' = sy_accepted s \<and> sy_discarded s' = sy_discarded s \<and> sy_replied s' = sy_replied s \<and>
     sy_crash s' = sy_crash s"

lemma enqueue_frame: "enqueue m s = Some s' \<Longrightarrow> callers_frame s s'"
  by (auto simp: enqueue_def callers_frame_def split: sum.splits option.splits if_splits)

lemma callers_frame_upd [simp]:
  "callers_frame (s\<lparr>sy_calls := cs\<rparr>) s' = callers_frame s s'"
  "callers_frame (s\<lparr>sy_close := c\<rparr>) s' = callers_frame s s'"
  by (simp_all add: callers_frame_def)

lemma callers_frame:
  assumes "act k l s = Some s'" and "isCaller l"
  shows "callers_frame s s'"
proof (cases l)
  case (LPost ready m)
  with assms show ?thesis
    by (auto simp: postNonBlocking_def dest!: enqueue_frame split: if_splits)
      (simp_all add: callers_frame_def)
next
  case (LCallSend i)
  with assms show ?thesis by (auto elim!: callSendE dest!: enqueue_frame)
next
  case LClose
  with assms have "closeStep s = Some s'" by simp
  then show ?thesis
    by (cases rule: closeStepE) (auto dest!: enqueue_frame simp: callers_frame_def [of s])
qed (use assms in \<open>auto simp: callBegin_def callers_frame_def elim!: callReturnE callTimeoutE\<close>)

section \<open>The order of the messages\<close>

definition callMessage :: "nat \<Rightarrow> callKind \<Rightarrow> ('c, 'v, 'r) message" where
  "callMessage i kind = (case kind of FlushBlocking _ \<Rightarrow> FlushEvents (Some i) | SyncCall \<Rightarrow> SyncEvents i)"

text \<open>The message an action puts into the inbox, and the one that a handler has dealt with.\<close>

fun messageSent :: "('a, 'c, 'v, 'r, 's) system \<Rightarrow> ('c, 'v, 'r) label \<Rightarrow> ('c, 'v, 'r) message list" where
  "messageSent s (LPost ready m) = (if ready then [m] else [])"
| "messageSent s (LCallSend i) = [callMessage i (fst (sy_calls s ! i))]"
| "messageSent s LClose =
     (case sy_close s of CloseFlush \<Rightarrow> [FlushEvents None] | CloseShutdown \<Rightarrow> [ShutdownEvents] | _ \<Rightarrow> [])"
| "messageSent s _ = []"

fun handledNow :: "('c, 'v, 'r) dispatcherPc \<Rightarrow> ('c, 'v, 'r) message list" where
  "handledNow (Handling m) = [m]"
| "handledNow _ = []"

fun messageHandled :: "('a, 'c, 'v, 'r, 's) system \<Rightarrow> ('c, 'v, 'r) label \<Rightarrow> ('c, 'v, 'r) message list" where
  "messageHandled s (LHandle now) = handledNow (sy_pc s)"
| "messageHandled s _ = []"

definition messagesLeft :: "('a, 'c, 'v, 'r, 's) system \<Rightarrow> ('c, 'v, 'r) message list" where
  "messagesLeft s = handledNow (sy_pc s) @ ch_buf (sy_inbox s)"

text \<open>What an observation of the single actions sees over a run.\<close>

fun observed ::
  "(('a, 'c, 'v, 'r, 's) system \<Rightarrow> ('c, 'v, 'r) label \<Rightarrow> 'x list) \<Rightarrow> ('a, 'c, 'v, 'r, 's) sdk \<Rightarrow>
   ('c, 'v, 'r) label list \<Rightarrow> ('a, 'c, 'v, 'r, 's) system \<Rightarrow> 'x list" where
  "observed f k [] s = []"
| "observed f k (l # ls) s =
     f s l @ (case act k l s of None \<Rightarrow> [] | Some s' \<Rightarrow> observed f k ls s')"

lemma enqueue_left:
  assumes "enqueue m s = Some s'" and "chan_ok (sy_inbox s)"
  shows "messagesLeft s' = messagesLeft s @ [m]"
proof -
  consider (buffered) ch where "chanSend (sy_inbox s) m = Inr (Some ch)" "s' = s\<lparr>sy_inbox := ch\<rparr>"
    | (handed) "ch_cap (sy_inbox s) = 0" "sy_pc s = AtSelect" "s' = s\<lparr>sy_pc := Handling m\<rparr>"
    using assms(1) by (auto simp: enqueue_def split: sum.splits option.splits if_splits)
  then show ?thesis
  proof cases
    case buffered
    then show ?thesis using chan.put_items [OF buffered(1)] by (simp add: messagesLeft_def)
  next
    case handed
    then show ?thesis using assms(2) by (simp add: messagesLeft_def chan_ok_def)
  qed
qed

lemma messagesLeft_upd [simp]:
  "messagesLeft (s\<lparr>sy_calls := cs\<rparr>) = messagesLeft s" "messagesLeft (s\<lparr>sy_close := c\<rparr>) = messagesLeft s"
  by (simp_all add: messagesLeft_def)

lemma messagesLeft_same:
  "sy_pc s' = sy_pc s \<Longrightarrow> sy_inbox s' = sy_inbox s \<Longrightarrow> messagesLeft s' = messagesLeft s"
  by (simp add: messagesLeft_def)

lemma act_order:
  assumes inv: "sync_inv s" and act: "act k l s = Some s'"
  shows "messagesLeft s @ messageSent s l = messageHandled s l @ messagesLeft s'"
proof -
  have ok: "chan_ok (sy_inbox s)" using inv by (simp add: sync_inv_def)
  show ?thesis
  proof (cases l)
    case (LPost ready m)
    with act ok show ?thesis
      by (auto simp: postNonBlocking_def dest: enqueue_left split: if_splits)
        (simp_all add: messagesLeft_def)
  next
    case (LCallSend i)
    with act have "callSend i s = Some s'" by simp
    then show ?thesis
    proof (cases rule: callSendE)
      case (1 kind)
      from enqueue_left [OF 1(3)] ok 1(2) show ?thesis by (simp add: LCallSend callMessage_def)
    qed
  next
    case LClose
    with act have "closeStep s = Some s'" by simp
    then show ?thesis
    proof (cases rule: closeStepE)
      case starts
      then show ?thesis by (simp add: LClose)
    next
      case flush
      from enqueue_left [OF flush(2)] ok flush(1) show ?thesis by (simp add: LClose)
    next
      case shutdown
      from enqueue_left [OF shutdown(2)] ok shutdown(1) show ?thesis by (simp add: LClose)
    qed
  next
    case LReceive
    with act show ?thesis by (auto elim!: receiveMessageE simp: messagesLeft_def)
  next
    case LWait
    then have "waitReturns s = Some s'" using act by simp
    then show ?thesis by (cases rule: waitReturnsE) (auto simp: messagesLeft_def LWait)
  next
    case LShutdownReply
    with act show ?thesis by (auto elim!: shutdownReplyE simp: messagesLeft_def)
  next
    case (LHandle now)
    then have h: "handleMessage k now s = Some s'" using act by simp
    note o = handling_open [OF inv h]
    from h o(1,2,4) show ?thesis
      by (cases rule: handleMessageE) (auto simp: messagesLeft_def LHandle split: option.split)
  next
    case (LTick t)
    then have h: "tickStep k t s = Some s'" using act by simp
    note o = ticking_open [OF inv h]
    from h o(1,2,4) show ?thesis by (cases rule: tickStepE) (auto simp: messagesLeft_def LTick)
  next
    case LResult
    then have h: "receiveResult s = Some s'" using act by simp
    from h result_open [OF inv h] show ?thesis
      by (cases rule: receiveResultE) (auto simp: messagesLeft_def LResult)
  next
    case (LTake i)
    with act show ?thesis by (auto elim!: workerTakeE simp: messagesLeft_def)
  next
    case (LWorkerSend i r)
    with act show ?thesis by (auto elim!: workerSendE simp: messagesLeft_def)
  next
    case (LWorkerPost i)
    with act show ?thesis
      by (auto simp: workerPost_def messagesLeft_def split: if_splits worker.splits sum.splits option.splits)
  next
    case (LWorkerDone i)
    with act show ?thesis
      by (auto simp: workerDone_def orCrash_def wg_Done_def wg_Add_def messagesLeft_def split: if_splits)
  next
    case (LCallReturn i)
    with act show ?thesis by (auto elim!: callReturnE)
  next
    case (LCallTimeout i)
    with act show ?thesis by (auto elim!: callTimeoutE)
  qed (use act in \<open>auto simp: callBegin_def intro: messagesLeft_same\<close>)
qed

lemma run_order:
  assumes "sys_inv s" and "run k ls s = Some s'"
  shows "messagesLeft s @ observed messageSent k ls s = observed messageHandled k ls s @ messagesLeft s'"
  using assms
proof (induction ls arbitrary: s)
  case (Cons l ls)
  then obtain s1 where s1: "sy_crash s = None" "act k l s = Some s1" "run k ls s1 = Some s'"
    by (auto split: if_splits option.splits)
  have "sys_inv s1" using step_sys_inv [OF Cons.prems(1)] s1(1,2) by (blast intro: step_act)
  from Cons.IH [OF this s1(3)] act_order [OF _ s1(2)] Cons.prems(1) s1(2) show ?case
    by (simp add: sys_inv_def) (metis append.assoc)
qed simp

text \<open>
  C12: The inbox is first in, first out: over every run of the system, the messages left at its start
  followed by the messages that were sent (events, flushes, synchronisations and the shutdown alike)
  are the messages that were handled, in that order, followed by those that are left. So no message
  that entered the inbox is lost, repeated or overtaken, and a flush finds every event recorded
  before it handled.
\<close>

theorem messages_in_order:
  assumes "reachable k config sampler mgr s" and "0 \<le> cg_UserKeysCapacity config"
    and "run k ls s = Some s'"
  shows "messagesLeft s @ observed messageSent k ls s = observed messageHandled k ls s @ messagesLeft s'"
  by (rule run_order [OF reachable_inv [OF assms(1,2)] assms(3)])

theorem messages_in_order_witness:
  "observed messageSent sampleSdk lossTrace sampleInit =
     [RecordRawEvent ''a'', Flush, RecordRawEvent ''b'', FlushEvents None, ShutdownEvents] \<and>
   observed messageHandled sampleSdk lossTrace sampleInit =
     [RecordRawEvent ''a'', Flush, RecordRawEvent ''b'', FlushEvents None, ShutdownEvents]"
proof -
  obtain s where s: "run sampleSdk lossTrace sampleInit = Some s" "sy_pc s = Stopped" "ch_buf (sy_inbox s) = []"
  proof -
    have "case run sampleSdk lossTrace sampleInit of None \<Rightarrow> False
      | Some s \<Rightarrow> sy_pc s = Stopped \<and> ch_buf (sy_inbox s) = []"
      by code_simp
    with that show thesis by (auto split: option.splits)
  qed
  have "observed messageSent sampleSdk lossTrace sampleInit =
     [RecordRawEvent ''a'', Flush, RecordRawEvent ''b'', FlushEvents None, ShutdownEvents]"
    by code_simp
  with messages_in_order [OF sampleInit_reachable sampleConfig_keys s(1)] s(2,3) show ?thesis
    by (simp add: messagesLeft_def sampleInit_def)
qed

section \<open>Recording\<close>

definition log_inv :: "('a, 'c, 'v, 'r, 's) system \<Rightarrow> bool" where
  "log_inv s \<longleftrightarrow> sy_loggers s = (if sy_inboxFullOnce s then [inboxFullMessage] else [])"

lemma log_inv_same:
  "sy_loggers s' = sy_loggers s \<Longrightarrow> sy_inboxFullOnce s' = sy_inboxFullOnce s \<Longrightarrow> log_inv s' = log_inv s"
  by (simp add: log_inv_def)

lemma enqueue_log: "enqueue m s = Some s' \<Longrightarrow> log_inv s' = log_inv s"
  by (rule log_inv_same) (auto simp: enqueue_def split: sum.splits option.splits if_splits)

lemma log_inv_simps [simp]:
  "log_inv (s\<lparr>sy_calls := cs\<rparr>) = log_inv s" "log_inv (s\<lparr>sy_close := c\<rparr>) = log_inv s"
  "log_inv (s\<lparr>sy_ed := ed\<rparr>) = log_inv s" "log_inv (s\<lparr>sy_pc := pc\<rparr>) = log_inv s"
  "log_inv (s\<lparr>sy_inbox := ch\<rparr>) = log_inv s" "log_inv (s\<lparr>sy_mgr := m\<rparr>) = log_inv s"
  "log_inv (s\<lparr>sy_sent := ds\<rparr>) = log_inv s" "log_inv (s\<lparr>sy_replied := rs\<rparr>) = log_inv s"
  "log_inv (s\<lparr>sy_crash := p\<rparr>) = log_inv s" "log_inv (setWorker i w s) = log_inv s"
  "log_inv (recordAccepted a b s) = log_inv s" "log_inv (recordDiscarded a b s) = log_inv s"
  by (simp_all add: log_inv_def setWorker_def recordAccepted_def recordDiscarded_def)

lemma act_log_inv:
  assumes "act k l s = Some s'" and "log_inv s"
  shows "log_inv s'"
proof (cases l)
  case (LPost ready m)
  with assms show ?thesis
    by (auto simp: postNonBlocking_def dest: enqueue_log split: if_splits) (auto simp: log_inv_def)
next
  case (LCallSend i)
  with assms show ?thesis by (auto elim!: callSendE dest: enqueue_log)
next
  case LClose
  with assms have "closeStep s = Some s'" by simp
  then show ?thesis using assms(2) by (cases rule: closeStepE) (auto dest: enqueue_log)
next
  case LReceive
  with assms show ?thesis by (auto elim!: receiveMessageE)
next
  case LWait
  with assms have "waitReturns s = Some s'" by simp
  then show ?thesis using assms(2) by (cases rule: waitReturnsE) auto
next
  case (LHandle now)
  with assms show ?thesis
    by (auto simp: handleMessage_def orCrash_def go_bind_def
        split: dispatcherPc.splits message.splits sum.splits)
next
  case (LTick t)
  with assms show ?thesis
    by (auto simp: tickStep_def orCrash_def go_bind_def split: if_splits tick.splits sum.splits)
next
  case LResult
  with assms show ?thesis by (auto simp: receiveResult_def Let_def split: if_splits received.splits)
next
  case (LWorkerSend i r)
  then have "workerSend k i r s = Some s'" using assms by simp
  then show ?thesis using assms(2) by (cases rule: workerSendE) auto
next
  case (LWorkerPost i)
  with assms show ?thesis
    by (auto simp: workerPost_def split: if_splits worker.splits sum.splits option.splits)
next
  case (LWorkerDone i)
  with assms show ?thesis
    by (auto simp: workerDone_def orCrash_def go_bind_def split: if_splits sum.splits)
qed (use assms in \<open>auto simp: callBegin_def elim!: callReturnE callTimeoutE shutdownReplyE workerTakeE\<close>)

lemma reachable_log: "reachable k config sampler mgr s \<Longrightarrow> log_inv s"
proof (induction rule: reachable.induct)
  case (reachable_start s)
  then show ?case
    by (auto simp: NewDefaultEventProcessor_def go_bind_eq_Inr log_inv_def split: if_splits)
qed (auto elim: act_log_inv)

text \<open>
  A recording method and \<open>Flush\<close> never wait. In every reachable state such a call can proceed at
  once: if the inbox has room the message is put at its end, and it cannot be dropped; if the buffer is
  full it is dropped (or handed to a dispatcher that waits at an unbuffered inbox) and the log has the
  warning about the full inbox exactly once. Neither touches anything the dispatcher, the workers or
  other callers own.
\<close>

theorem record_never_waits:
  assumes "reachable k config sampler mgr s" and "0 \<le> cg_UserKeysCapacity config" and "recordable m"
  shows "if length (ch_buf (sy_inbox s)) < ch_cap (sy_inbox s) then
      step k (LPost True m) s (s\<lparr>sy_inbox := (sy_inbox s)\<lparr>ch_buf := ch_buf (sy_inbox s) @ [m]\<rparr>\<rparr>) \<and>
      (\<nexists>s'. step k (LPost False m) s s')
    else step k (LPost False m) s (s\<lparr>sy_inboxFullOnce := True, sy_loggers := [inboxFullMessage]\<rparr>) \<and>
      (\<nexists>s'. step k (LPost True m) s s' \<and>
        (0 < ch_cap (sy_inbox s) \<or> s' \<noteq> s\<lparr>sy_pc := Handling m\<rparr>))"
proof -
  have "sync_inv s" using reachable_inv [OF assms(1,2)] by (simp add: sys_inv_def)
  then have c: "sy_crash s = None" "\<not> ch_closed (sy_inbox s)" by (simp_all add: sync_inv_def)
  have "log_inv s" by (rule reachable_log [OF assms(1)])
  then show ?thesis
    using c assms(3)
    by (auto simp: step_iff postNonBlocking_def enqueue_def chanSend_def log_inv_def split: if_splits)
qed

theorem record_never_waits_witness:
  "step sampleSdk (LPost True Flush) sampleInit
     (sampleInit\<lparr>sy_inbox := (sy_inbox sampleInit)\<lparr>ch_buf := [Flush]\<rparr>\<rparr>)"
proof -
  have "recordable (Flush :: (sctx, sval, string) message)" by (simp add: Flush_def)
  moreover have "ch_buf (sy_inbox sampleInit) = []" "0 < ch_cap (sy_inbox sampleInit)"
    by (simp_all add: sampleInit_def)
  ultimately show ?thesis
    using record_never_waits [OF sampleInit_reachable sampleConfig_keys, of Flush] by simp
qed

section \<open>Replies to blocking calls\<close>

fun awaited :: "('c, 'v, 'r) message \<Rightarrow> nat list" where
  "awaited (FlushEvents (Some i)) = [i]"
| "awaited (SyncEvents i) = [i]"
| "awaited _ = []"

fun awaitedNow :: "('c, 'v, 'r) dispatcherPc \<Rightarrow> nat list" where
  "awaitedNow (Handling m) = awaited m"
| "awaitedNow (WaitFlush i) = [i]"
| "awaitedNow (WaitSync i) = [i]"
| "awaitedNow _ = []"

text \<open>The calls that have been replied to, and those whose reply is still to come.\<close>

definition callIds :: "('a, 'c, 'v, 'r, 's) system \<Rightarrow> nat list" where
  "callIds s = sy_replied s @ awaitedNow (sy_pc s) @ concat (map awaited (ch_buf (sy_inbox s)))"

fun pc_ok :: "nat list \<Rightarrow> nat \<Rightarrow> callKind \<times> callPc \<Rightarrow> bool" where
  "pc_ok replied i (kind, CallReturned True) \<longleftrightarrow> i \<in> set replied"
| "pc_ok replied i (kind, CallReturned False) \<longleftrightarrow> (\<exists>timeout. kind = FlushBlocking timeout \<and> 0 < timeout)"
| "pc_ok replied i _ \<longleftrightarrow> True"

definition calls_inv :: "('a, 'c, 'v, 'r, 's) system \<Rightarrow> bool" where
  "calls_inv s \<longleftrightarrow> distinct (callIds s) \<and>
     set (callIds s) = {i. i < length (sy_calls s) \<and> snd (sy_calls s ! i) \<noteq> CallSending} \<and>
     (\<forall>i < length (sy_calls s). pc_ok (sy_replied s) i (sy_calls s ! i))"

lemma pc_ok_mono: "pc_ok rs i c \<Longrightarrow> pc_ok (r # rs) i c"
  by (cases "(rs, i, c)" rule: pc_ok.cases) simp_all

lemma calls_inv_same:
  "calls_inv s \<Longrightarrow> sy_calls s' = sy_calls s \<Longrightarrow> sy_replied s' = sy_replied s \<Longrightarrow>
     callIds s' = callIds s \<Longrightarrow> calls_inv s'"
  by (simp add: calls_inv_def)

lemma callIds_left:
  "callIds s = sy_replied s @ (case sy_pc s of WaitFlush i \<Rightarrow> [i] | WaitSync i \<Rightarrow> [i] | _ \<Rightarrow> []) @
     concat (map awaited (messagesLeft s))"
  by (cases "sy_pc s") (simp_all add: callIds_def messagesLeft_def)

lemma callIds_same:
  "sy_pc s' = sy_pc s \<Longrightarrow> sy_inbox s' = sy_inbox s \<Longrightarrow> sy_replied s' = sy_replied s \<Longrightarrow> callIds s' = callIds s"
  by (simp add: callIds_def)

lemma enqueue_ids:
  assumes "enqueue m s = Some s'" and "chan_ok (sy_inbox s)"
  shows "callIds s' = callIds s @ awaited m \<and> sy_calls s' = sy_calls s \<and> sy_replied s' = sy_replied s"
proof -
  consider "s' = s\<lparr>sy_inbox := (sy_inbox s)\<lparr>ch_buf := ch_buf (sy_inbox s) @ [m]\<rparr>\<rparr>"
    | "sy_pc s = AtSelect" "ch_buf (sy_inbox s) = []" "s' = s\<lparr>sy_pc := Handling m\<rparr>"
    using assms by (auto simp: enqueue_def chanSend_def chan_ok_def split: if_splits)
  then show ?thesis by cases (simp_all add: callIds_def)
qed

lemma enqueue_calls_inv:
  "enqueue m s = Some s' \<Longrightarrow> chan_ok (sy_inbox s) \<Longrightarrow> awaited m = [] \<Longrightarrow> calls_inv s \<Longrightarrow> calls_inv s'"
  using enqueue_ids [of m s s'] by (auto intro: calls_inv_same)

lemma act_calls_inv:
  assumes inv: "sync_inv s" and c: "calls_inv s" and act: "act k l s = Some s'"
  shows "calls_inv s'"
proof -
  have ok: "chan_ok (sy_inbox s)" using inv by (simp add: sync_inv_def)
  show ?thesis
  proof (cases l)
    case (LPost ready m)
    then have "recordable m" and p: "postNonBlocking ready m s = Some s'"
      using act by (auto split: if_splits)
    then have "awaited m = []" by (cases m) auto
    with p c ok show ?thesis
      by (auto simp: postNonBlocking_def intro: enqueue_calls_inv split: if_splits)
        (auto intro!: calls_inv_same [OF c] callIds_same)
  next
    case (LCallBegin kind)
    then have "s' = s\<lparr>sy_calls := sy_calls s @ [(kind, CallSending)]\<rparr>"
      using act by (simp add: callBegin_def)
    with c show ?thesis
      by (auto simp: calls_inv_def callIds_def nth_append less_Suc_eq)
  next
    case (LCallSend i)
    then have "callSend i s = Some s'" using act by simp
    then show ?thesis
    proof (cases rule: callSendE)
      case (1 kind)
      let ?s = "s\<lparr>sy_calls := (sy_calls s)[i := (kind, CallWaiting)]\<rparr>"
      have "callIds ?s = callIds s" by (simp add: callIds_def)
      then have "callIds s' = callIds s @ [i]" "sy_calls s' = sy_calls ?s" "sy_replied s' = sy_replied s"
        using enqueue_ids [OF 1(3)] ok by (auto split: callKind.splits)
      with c 1(1,2) show ?thesis
        by (auto simp: calls_inv_def nth_list_update)
    qed
  next
    case (LCallReturn i)
    then have "callReturn i s = Some s'" using act by simp
    then show ?thesis
      by (cases rule: callReturnE) (use c in \<open>auto simp: calls_inv_def callIds_def nth_list_update\<close>)
  next
    case (LCallTimeout i)
    then have "callTimeout i s = Some s'" using act by simp
    then show ?thesis
      by (cases rule: callTimeoutE) (use c in \<open>auto simp: calls_inv_def callIds_def nth_list_update\<close>)
  next
    case LClose
    then have "closeStep s = Some s'" using act by simp
    then show ?thesis
    proof (cases rule: closeStepE)
      case starts
      then show ?thesis by (auto intro!: calls_inv_same [OF c] callIds_same)
    next
      case flush
      have "calls_inv (s\<lparr>sy_close := CloseShutdown\<rparr>)" by (auto intro!: calls_inv_same [OF c] callIds_same)
      with enqueue_calls_inv [OF flush(2)] ok show ?thesis by simp
    next
      case shutdown
      have "calls_inv (s\<lparr>sy_close := CloseWait\<rparr>)" by (auto intro!: calls_inv_same [OF c] callIds_same)
      with enqueue_calls_inv [OF shutdown(2)] ok show ?thesis by simp
    qed
  next
    case LReceive
    with act c show ?thesis
      by (auto elim!: receiveMessageE intro!: calls_inv_same [OF c] simp: callIds_def)
  next
    case LWait
    then have "waitReturns s = Some s'" using act by simp
    then show ?thesis
    proof (cases rule: waitReturnsE)
      case (reply i)
      then have "distinct (callIds s') = distinct (callIds s)" "set (callIds s') = set (callIds s)"
        by (auto simp: callIds_def)
      with reply c show ?thesis by (auto simp: calls_inv_def intro: pc_ok_mono)
    next
      case shutdown
      with c show ?thesis by (auto intro!: calls_inv_same [OF c] simp: callIds_def)
    qed
  next
    case LShutdownReply
    with act show ?thesis
      by (auto elim!: shutdownReplyE intro!: calls_inv_same [OF c] simp: callIds_def)
  next
    case (LHandle now)
    then have h: "handleMessage k now s = Some s'" using act by simp
    note o = handling_open [OF inv h]
    from h o(1,2,4) show ?thesis
      by (cases rule: handleMessageE)
        (auto intro!: calls_inv_same [OF c] simp: callIds_def split: option.split)
  next
    case (LTick t)
    then have h: "tickStep k t s = Some s'" using act by simp
    note o = ticking_open [OF inv h]
    from h o(1,2,4) show ?thesis
      by (cases rule: tickStepE) (auto intro!: calls_inv_same [OF c] callIds_same)
  next
    case LResult
    then have h: "receiveResult s = Some s'" using act by simp
    from h result_open [OF inv h] show ?thesis
      by (cases rule: receiveResultE) (auto intro!: calls_inv_same [OF c] callIds_same)
  next
    case (LTake i)
    with act show ?thesis by (auto elim!: workerTakeE intro!: calls_inv_same [OF c] callIds_same)
  next
    case (LWorkerSend i r)
    with act show ?thesis by (auto elim!: workerSendE intro!: calls_inv_same [OF c] callIds_same)
  next
    case (LWorkerPost i)
    with act show ?thesis
      by (auto simp: workerPost_def intro!: calls_inv_same [OF c] callIds_same
          split: if_splits worker.splits sum.splits option.splits)
  next
    case (LWorkerDone i)
    with act show ?thesis
      by (auto simp: workerDone_def orCrash_def go_bind_def intro!: calls_inv_same [OF c] callIds_same
          split: if_splits sum.splits)
  next
    case (LStreamInit si)
    with act show ?thesis by (auto intro!: calls_inv_same [OF c] callIds_same)
  qed
qed

lemma reachable_calls:
  "reachable k config sampler mgr s \<Longrightarrow> 0 \<le> cg_UserKeysCapacity config \<Longrightarrow> calls_inv s"
proof (induction rule: reachable.induct)
  case (reachable_start s)
  then show ?case
    by (auto simp: NewDefaultEventProcessor_def go_bind_eq_Inr calls_inv_def callIds_def split: if_splits)
next
  case (reachable_step s l s')
  then have "sync_inv s" using reachable_inv [OF reachable_step.hyps(1)] by (simp add: sys_inv_def)
  with reachable_step show ?case by (auto intro: act_calls_inv)
qed

lemma steps_reachable:
  "steps k ls s s' \<Longrightarrow> reachable k config sampler mgr s \<Longrightarrow> reachable k config sampler mgr s'"
  by (induction rule: steps.induct) (auto intro: reachable_step)

lemma steps_Cons: "steps k ls s1 s' \<Longrightarrow> step k l s s1 \<Longrightarrow> steps k (l # ls) s s'"
proof (induction rule: steps.induct)
  case (steps_Nil s1)
  from steps_snoc [OF steps.steps_Nil steps_Nil] show ?case by simp
next
  case (steps_snoc ls s1 s' l' s'')
  from steps.steps_snoc [OF steps_snoc.IH [OF steps_snoc.prems] steps_snoc.hyps(2)] show ?case by simp
qed

lemma run_steps: "run k ls s = Some s' \<Longrightarrow> steps k ls s s'"
proof (induction ls arbitrary: s)
  case (Cons l ls)
  then obtain s1 where s1: "sy_crash s = None" "act k l s = Some s1" "run k ls s1 = Some s'"
    by (auto split: if_splits option.splits)
  from Cons.IH [OF s1(3)] s1(1,2) show ?case by (blast intro: steps_Cons step_act)
qed (simp add: steps_Nil)

lemma run_append: "run k (ls @ ls') s = (case run k ls s of None \<Rightarrow> None | Some s' \<Rightarrow> run k ls' s')"
  by (induction ls arbitrary: s) (auto split: option.splits)

text \<open>
  C25: Every \<open>FlushBlocking\<close> call that got its message into the inbox is accounted for exactly once: its
  message is in the inbox or with the dispatcher, or its reply was sent, once. A call has returned
  true only if its reply was sent, and false only if it has a positive timeout.
\<close>

theorem one_reply_each:
  assumes "reachable k config sampler mgr s" and "0 \<le> cg_UserKeysCapacity config"
    and "i < length (sy_calls s)"
  shows "count_list (sy_replied s @ awaitedNow (sy_pc s) @ concat (map awaited (ch_buf (sy_inbox s)))) i =
      (if snd (sy_calls s ! i) = CallSending then 0 else 1) \<and>
    (case sy_calls s ! i of
       (kind, CallReturned True) \<Rightarrow> i \<in> set (sy_replied s)
     | (kind, CallReturned False) \<Rightarrow> \<exists>timeout. kind = FlushBlocking timeout \<and> 0 < timeout
     | _ \<Rightarrow> True)"
proof -
  have c: "calls_inv s" by (rule reachable_calls [OF assms(1,2)])
  then have "pc_ok (sy_replied s) i (sy_calls s ! i)" using assms(3) by (simp add: calls_inv_def)
  then have "case sy_calls s ! i of
       (kind, CallReturned True) \<Rightarrow> i \<in> set (sy_replied s)
     | (kind, CallReturned False) \<Rightarrow> \<exists>timeout. kind = FlushBlocking timeout \<and> 0 < timeout
     | _ \<Rightarrow> True"
    by (auto split: prod.split callPc.split bool.split)
  moreover have "i \<in> set (callIds s) \<longleftrightarrow> snd (sy_calls s ! i) \<noteq> CallSending"
    using c assms(3) by (simp add: calls_inv_def)
  moreover have "count_list (callIds s) i = (if i \<in> set (callIds s) then 1 else 0)"
    using c by (auto simp: calls_inv_def distinct_count_atmost_1 simp flip: count_mset)
  ultimately show ?thesis by (simp add: callIds_def)
qed

text \<open>
  C31: A \<open>FlushBlocking\<close> without a positive timeout that is called after \<open>Close\<close> has returned never
  returns, whatever happens: the documented promise that calls after \<open>Close\<close> are ignored holds for
  \<open>Flush\<close> only.
\<close>

theorem late_flush_hangs:
  assumes "reachable k config sampler mgr s" and "0 \<le> cg_UserKeysCapacity config"
    and "sy_close s = CloseReturned" and "steps k ls s s'"
    and "length (sy_calls s) \<le> i" and "i < length (sy_calls s')"
    and "fst (sy_calls s' ! i) = FlushBlocking timeout" and "timeout \<le> 0"
  shows "\<nexists>b. snd (sy_calls s' ! i) = CallReturned b"
proof -
  have i: "sys_inv s" by (rule reachable_inv [OF assms(1,2)])
  then have "sy_pc s = Stopped" using assms(3) by (simp add: sys_inv_def close_inv_def)
  with stopped_steps [OF assms(4) i] have "sy_replied s' = sy_replied s" by simp
  moreover have "calls_inv s" by (rule reachable_calls [OF assms(1,2)])
  then have "\<forall>j \<in> set (sy_replied s). j < length (sy_calls s)"
    by (auto simp: calls_inv_def callIds_def)
  ultimately have "i \<notin> set (sy_replied s')" using assms(5) by auto
  moreover have "calls_inv s'"
    by (rule reachable_calls [OF steps_reachable [OF assms(4,1)] assms(2)])
  then have "pc_ok (sy_replied s') i (sy_calls s' ! i)" using assms(6) by (simp add: calls_inv_def)
  ultimately show ?thesis
    using assms(7,8) by (cases "(sy_replied s', i, sy_calls s' ! i)" rule: pc_ok.cases) auto
qed

theorem one_reply_each_witness:
  "\<exists>s. reachable sampleSdk sampleConfig 0 None s \<and>
    sy_calls s = [(FlushBlocking 0, CallReturned True)] \<and> count_list (sy_replied s) 0 = 1"
proof -
  have "case run sampleSdk (waitTrace @ [LWait, LCallReturn 0]) sampleInit of None \<Rightarrow> False
    | Some s \<Rightarrow> sy_calls s = [(FlushBlocking 0, CallReturned True)] \<and> sy_pc s = AtSelect \<and>
        ch_buf (sy_inbox s) = []"
    by code_simp
  then obtain s where s: "run sampleSdk (waitTrace @ [LWait, LCallReturn 0]) sampleInit = Some s"
    "sy_calls s = [(FlushBlocking 0, CallReturned True)]" "sy_pc s = AtSelect" "ch_buf (sy_inbox s) = []"
    by (auto split: option.splits)
  have r: "reachable sampleSdk sampleConfig 0 None s"
    by (rule run_reachable [OF sampleInit_reachable s(1)])
  have "0 < length (sy_calls s)" by (simp add: s(2))
  from one_reply_each [OF r sampleConfig_keys this] s r show ?thesis by auto
qed

theorem late_flush_hangs_witness:
  "\<exists>s'. reachable sampleSdk sampleConfig 0 None s' \<and> sy_close s' = CloseReturned \<and>
    sy_calls s' = [(FlushBlocking 0, CallWaiting)] \<and> (\<nexists>b. snd (sy_calls s' ! 0) = CallReturned b)"
proof -
  let ?late = "[LCallBegin (FlushBlocking 0), LCallSend 0] :: (sctx, sval, string) label list"
  have "case run sampleSdk (lossTrace @ ?late) sampleInit of None \<Rightarrow> False
    | Some s \<Rightarrow> sy_close s = CloseReturned \<and> sy_calls s = [(FlushBlocking 0, CallWaiting)]"
    by code_simp
  then obtain s' where s': "run sampleSdk (lossTrace @ ?late) sampleInit = Some s'"
    "sy_close s' = CloseReturned" "sy_calls s' = [(FlushBlocking 0, CallWaiting)]"
    by (auto split: option.splits)
  have "case run sampleSdk lossTrace sampleInit of None \<Rightarrow> False
    | Some s \<Rightarrow> sy_close s = CloseReturned \<and> sy_calls s = []"
    by code_simp
  then obtain s where s: "run sampleSdk lossTrace sampleInit = Some s" "sy_close s = CloseReturned"
    "sy_calls s = []"
    by (auto split: option.splits)
  have r: "reachable sampleSdk sampleConfig 0 None s"
    by (rule run_reachable [OF sampleInit_reachable s(1)])
  have st: "steps sampleSdk ?late s s'"
    by (rule run_steps) (use s'(1) s(1) in \<open>simp add: run_append\<close>)
  have "length (sy_calls s) \<le> 0" "0 < length (sy_calls s')" "fst (sy_calls s' ! 0) = FlushBlocking 0"
    by (simp_all add: s(3) s'(3))
  from late_flush_hangs [OF r sampleConfig_keys s(2) st this] steps_reachable [OF st r] s'
  show ?thesis by auto
qed

end
