(* ===== verification/Processor_Disabled.thy ===== *)
theory Processor_Disabled
  imports Processor_Calls
begin

text \<open>
  The two ways in which the event processor stops working before \<open>Close\<close>: for good after the server
  has answered that no more data should be sent, and by a panic of the dispatcher's goroutine when the
  configured capacity of the key cache is negative. And what a diagnostics tick reports.
\<close>

section \<open>Told to stop\<close>

lemma handleResult_disabled: "di_disabled ed \<Longrightarrow> handleResult ed r = ed"
  by (simp add: handleResult_def)

definition off :: "('a, 'c, 'v, 'r, 's) system \<Rightarrow> ('a, 'c, 'v, 'r, 's) system \<Rightarrow> bool" where
  "off s s' \<longleftrightarrow> di_disabled (sy_ed s') \<and> sy_accepted s' = sy_accepted s \<and> sy_discarded s' = sy_discarded s"

lemma off_same:
  "di_disabled (sy_ed s) \<Longrightarrow> di_disabled (sy_ed s') = di_disabled (sy_ed s) \<Longrightarrow>
     sy_accepted s' = sy_accepted s \<Longrightarrow> sy_discarded s' = sy_discarded s \<Longrightarrow> off s s'"
  by (simp add: off_def)

lemma act_off:
  assumes inv: "sync_inv s" and d: "di_disabled (sy_ed s)" and act: "act k l s = Some s'"
  shows "off s s'"
proof (cases "isCaller l")
  case True
  from callers_frame [OF act this] d show ?thesis by (simp add: callers_frame_def off_def)
next
  case False
  then show ?thesis
  proof (cases l)
    case LReceive
    with act show ?thesis by (auto elim!: receiveMessageE intro: off_same [OF d])
  next
    case (LHandle now)
    then have h: "handleMessage k now s = Some s'" using act by simp
    note o = handling_open [OF inv h]
    from h o(1,2,4) show ?thesis
    proof (cases rule: handleMessageE)
      case (event evt ed)
      then have "ed = sy_ed s" using d by (simp add: processEvent_disabled)
      with event d show ?thesis by (simp add: off_def recordAccepted_def)
    next
      case (flush r ed)
      then have "ed = sy_ed s" using d by (simp add: triggerFlush_def)
      with flush show ?thesis by (auto intro: off_same [OF d])
    next
      case (waits pc)
      then show ?thesis by (auto intro: off_same [OF d])
    qed
  next
    case LWait
    then have "waitReturns s = Some s'" using act by simp
    then show ?thesis by (cases rule: waitReturnsE) (auto intro: off_same [OF d])
  next
    case LShutdownReply
    with act show ?thesis by (auto elim!: shutdownReplyE intro: off_same [OF d])
  next
    case LResult
    then have h: "receiveResult s = Some s'" using act by simp
    from h result_open [OF inv h] show ?thesis
    proof (cases rule: receiveResultE)
      case (1 r rs ed)
      with d show ?thesis
        by (simp add: handleResult_disabled off_def recordDiscarded_def outboxEvents_def)
    qed
  next
    case (LTick t)
    then have h: "tickStep k t s = Some s'" using act by simp
    note o = ticking_open [OF inv h]
    from h o(1,2,4) show ?thesis
    proof (cases rule: tickStepE)
      case (flush ed)
      then have "ed = sy_ed s" using d by (simp add: triggerFlush_def)
      with flush show ?thesis by (auto intro: off_same [OF d])
    next
      case users
      then show ?thesis by (auto intro: off_same [OF d] simp: usersResetTick_def)
    next
      case (diagnostics now ed mgr)
      with diagnosticsTick_ok [OF o(1,2,4), of "sk_V k" now "sy_mgr s"] d show ?thesis
        by (auto simp: off_def sync_frame_def)
    qed
  next
    case (LTake i)
    with act show ?thesis by (auto elim!: workerTakeE intro: off_same [OF d])
  next
    case (LWorkerSend i r)
    with act show ?thesis by (auto elim!: workerSendE intro: off_same [OF d] simp: setWorker_def)
  next
    case (LWorkerPost i)
    with act show ?thesis
      by (auto simp: workerPost_def setWorker_def intro: off_same [OF d]
          split: if_splits worker.splits sum.splits option.splits)
  next
    case (LWorkerDone i)
    with act show ?thesis
      by (auto simp: workerDone_def orCrash_def go_bind_def setWorker_def intro: off_same [OF d]
          split: if_splits sum.splits)
  qed simp_all
qed

lemma steps_off:
  "steps k ls s s' \<Longrightarrow> sys_inv s \<Longrightarrow> di_disabled (sy_ed s) \<Longrightarrow> off s s'"
proof (induction rule: steps.induct)
  case (steps_snoc ls s s' l s'')
  have i: "sync_inv s'"
    using steps_inv [OF steps_snoc.hyps(1) steps_snoc.prems(1)] by (simp add: sys_inv_def)
  from steps_snoc.IH [OF steps_snoc.prems] act_off [OF i] steps_snoc.hyps(2) show ?case
    by (auto simp: off_def step_iff)
qed (simp add: off_def)

text \<open>
  C10: When the dispatcher takes a result with \<open>MustShutDown\<close> out of the channel, it stops for good:
  whatever happens later, it stays disabled, its outbox and its summary stay empty, no event is ever
  accepted again, and every event accepted before was sent, is in a payload that was already flushed,
  or was thrown away.
\<close>

theorem shut_down_for_good:
  assumes "reachable k config sampler mgr s" and "0 \<le> cg_UserKeysCapacity config"
    and "step k LResult s s1" and "ch_buf (di_senderResultCh (sy_ed s)) = r # rs" and "sr_MustShutDown r"
    and "steps k ls s1 s'"
  shows "di_disabled (sy_ed s') \<and> outboxEvents (sy_ed s') = [] \<and>
    \<not> hasCounters (eventsState (ob_summarizer (di_outbox (sy_ed s')))) \<and>
    sy_accepted s' = sy_accepted s \<and>
    mset (sy_accepted s') = inFlight s' + mset (sentEvents s') + mset (sy_discarded s')"
proof -
  have i: "sys_inv s" by (rule reachable_inv [OF assms(1,2)])
  have i1: "sys_inv s1" by (rule step_sys_inv [OF i assms(3)])
  have h: "receiveResult s = Some s1" using assms(3) by auto
  have sync: "sync_inv s" using i by (simp add: sys_inv_def)
  from h result_open [OF sync h] have s1: "di_disabled (sy_ed s1) \<and> sy_accepted s1 = sy_accepted s"
    by (cases rule: receiveResultE) (use assms(4,5) in \<open>auto simp: handleResult_def\<close>)
  from steps_off [OF assms(6) i1] s1 have o: "off s1 s'" by simp
  have i': "sys_inv s'" by (rule steps_inv [OF assms(6) i1])
  then have "pendingCount (di_outbox (sy_ed s')) = 0"
    using o by (simp add: sys_inv_def sync_inv_def disp_ok_def off_def)
  with i' o s1 show ?thesis
    by (simp add: off_def sys_inv_def conserved_def pendingCount_0 outboxEvents_def)
qed

definition refusedTrace :: "(sctx, sval, string) label list" where
  "refusedTrace = recordTrace ''a'' @ flushTrace @ recordTrace ''b'' @
     [LTake 0, LWorkerSend 0 \<lparr>sr_Success = False, sr_MustShutDown = True, sr_TimeFromServer = 0\<rparr>,
      LWorkerPost 0, LWorkerDone 0]"

theorem shut_down_for_good_witness:
  "\<exists>s' :: (string list, sctx, sval, string, nat) system.
     sy_accepted s' = [RawEvent ''a'', RawEvent ''b''] \<and> di_disabled (sy_ed s') \<and> outboxEvents (sy_ed s') = []"
proof -
  let ?r = "\<lparr>sr_Success = False, sr_MustShutDown = True, sr_TimeFromServer = 0\<rparr>"
  have "case run sampleSdk refusedTrace sampleInit of None \<Rightarrow> False
    | Some s \<Rightarrow> sy_crash s = None \<and> ch_buf (di_senderResultCh (sy_ed s)) = [?r] \<and>
        sy_accepted s = [RawEvent ''a'', RawEvent ''b''] \<and> sy_pc s = AtSelect"
    by code_simp
  then obtain s where s: "run sampleSdk refusedTrace sampleInit = Some s" "sy_crash s = None"
    "ch_buf (di_senderResultCh (sy_ed s)) = [?r]" "sy_accepted s = [RawEvent ''a'', RawEvent ''b'']"
    "sy_pc s = AtSelect"
    by (auto split: option.splits)
  have r: "reachable sampleSdk sampleConfig 0 None s"
    by (rule run_reachable [OF sampleInit_reachable s(1)])
  obtain s1 where "act sampleSdk LResult s = Some s1"
    using s(3,5) by (simp add: receiveResult_def chanRecv_def Let_def)
  then have st: "step sampleSdk LResult s s1" using s(2) by (blast intro: step_act)
  have "sr_MustShutDown ?r" by simp
  from shut_down_for_good [OF r sampleConfig_keys st s(3) this steps_Nil] s(4) show ?thesis by auto
qed

section \<open>Panics\<close>

lemma processEvent_negative:
  assumes "\<not> di_disabled ed" and "di_userKeys ed = newLruCache cap" and "cap < 0"
    and "contextBase evt = Some b"
  shows "processEvent C smp now ed evt = Inl NilDereference"
  using assms
  by (cases evt) (simp_all add: processEvent_def processContextEvent_def lru_add_negative Let_def)

lemma start_keys:
  assumes "NewDefaultEventProcessor k config sampler mgr = Inr s"
  shows "di_userKeys (sy_ed s) = newLruCache (cg_UserKeysCapacity config) \<and> \<not> di_disabled (sy_ed s) \<and>
    sy_inbox s = makeChan (nat (cg_Capacity config)) \<and> sy_pc s = AtSelect \<and> sy_crash s = None"
  using assms
  by (auto simp: NewDefaultEventProcessor_def startEventDispatcher_def Let_def go_bind_eq_Inr
      sendDiagnosticsEvent_def split: if_splits option.splits)

text \<open>
  C32: A negative capacity of the key cache is not rejected at the start, and the first event with a
  context then ends the program: the dispatcher's goroutine dereferences the element that the empty
  list does not have.
\<close>

theorem negative_key_capacity_panics:
  assumes "NewDefaultEventProcessor k config sampler mgr = Inr s" and "cg_UserKeysCapacity config < 0"
    and "0 < cg_Capacity config" and "contextBase evt = Some b"
  shows "\<exists>s'. run k [LPost True (SendEvent evt), LReceive, LHandle now] s = Some s' \<and>
    sy_crash s' = Some NilDereference"
proof -
  note s = start_keys [OF assms(1)]
  have "recordable (SendEvent evt)" using assms(4) by (cases evt) (simp_all add: isIndex_def)
  moreover have "processEvent (sk_C k) (sk_smp k) now (sy_ed s) evt = Inl NilDereference"
    by (rule processEvent_negative [OF _ _ assms(2,4)]) (use s in simp_all)
  ultimately show ?thesis
    using s assms(3)
    by (simp add: postNonBlocking_def enqueue_def chanSend_def receiveMessage_def chanRecv_def
        handleMessage_def orCrash_def)
qed

theorem negative_key_capacity_panics_witness:
  "\<exists>s s'. NewDefaultEventProcessor sampleSdk (sampleConfig\<lparr>cg_UserKeysCapacity := -1\<rparr>) 0 None = Inr s \<and>
    run sampleSdk [LPost True (SendEvent (Evaluation (sampleEval ''f'' 1 20))), LReceive, LHandle 0] s = Some s' \<and>
    sy_crash s' = Some NilDereference"
proof -
  let ?c = "sampleConfig\<lparr>cg_UserKeysCapacity := -1\<rparr>"
  have "\<exists>s. NewDefaultEventProcessor sampleSdk ?c 0 None = Inr s"
    by (simp add: NewDefaultEventProcessor_def startEventDispatcher_def newEventsOutbox_def sampleConfig_def Let_def)
  then obtain s where s: "NewDefaultEventProcessor sampleSdk ?c 0 None = Inr s" by blast
  have "cg_UserKeysCapacity ?c < 0" "0 < cg_Capacity ?c" by (simp_all add: sampleConfig_def)
  from negative_key_capacity_panics [OF s this, of "Evaluation (sampleEval ''f'' 1 20)"] s show ?thesis
    by auto
qed

section \<open>Diagnostics\<close>

text \<open>
  C27: A diagnostics tick reports the counters once. If the manager may send, the event is a statistics
  event with exactly the events dropped, the contexts deduplicated, the events of the last batch and
  the stream connections since the last report, dated from that report to now, and all of them are
  reset, even if the flush channel is full: then the event and its counts are lost. Otherwise nothing
  changes but the gate. The events in the outbox and the summary are untouched.
\<close>

theorem diagnosticsTick_effect:
  assumes "\<not> ch_closed (di_flushCh ed)" and "0 \<le> di_workersGroup ed"
    and "CanSendStatsEvent m = (can, m')"
  shows "\<exists>ed' m''. diagnosticsTick V now ed (Some m) = Inr (ed', Some m'') \<and>
    ob_events (di_outbox ed') = ob_events (di_outbox ed) \<and>
    ob_summarizer (di_outbox ed') = ob_summarizer (di_outbox ed) \<and>
    (if can then
       ob_droppedEvents (di_outbox ed') = 0 \<and> di_deduplicatedContexts ed' = 0 \<and>
       di_eventsInLastBatch ed' = 0 \<and> dm_streamInits m'' = [] \<and> dm_dataSinceTime m'' = now \<and>
       ch_buf (di_flushCh ed') = ch_buf (di_flushCh ed) @
         (if length (ch_buf (di_flushCh ed)) < ch_cap (di_flushCh ed)
          then [diagnosticPayload (reportValue V (dm_id m)
            \<lparr>rp_created = now, rp_since = dm_dataSinceTime m,
             rp_counts = (ob_droppedEvents (di_outbox ed), di_deduplicatedContexts ed, di_eventsInLastBatch ed),
             rp_inits = dm_streamInits m\<rparr>)] else [])
     else ed' = ed \<and> m'' = m')"
proof (cases can)
  case False
  with assms(3) show ?thesis by (simp add: diagnosticsTick_def)
next
  case True
  let ?ed = "ed\<lparr>di_outbox := (di_outbox ed)\<lparr>ob_droppedEvents := 0\<rparr>, di_deduplicatedContexts := 0,
    di_eventsInLastBatch := 0\<rparr>"
  have i: "\<not> ch_closed (di_flushCh ?ed)" "0 \<le> di_workersGroup ?ed" using assms by simp_all
  note keeps = CanSendStatsEvent_keeps [OF assms(3)]
  show ?thesis
    using True assms(3) keeps
    by (simp add: diagnosticsTick_def CreateStatsEventAndReset_def reportValue_def Let_def
        sendDiagnosticsEvent_eq [OF i])
qed

theorem diagnosticsTick_effect_witness:
  "\<exists>ed' m''. diagnosticsTick sampleV 7 (sampleDispatcher\<lparr>di_deduplicatedContexts := 3\<rparr>)
      (Some (NewDiagnosticsManager SNull SNull SNull 5 (Gate 1 False))) = Inr (ed', Some m'') \<and>
    di_deduplicatedContexts ed' = 0 \<and> length (ch_buf (di_flushCh ed')) = 1 \<and> dm_dataSinceTime m'' = 7"
proof -
  let ?ed = "sampleDispatcher\<lparr>di_deduplicatedContexts := 3\<rparr>"
  let ?m = "NewDiagnosticsManager SNull SNull SNull 5 (Gate 1 False)"
  have "\<not> ch_closed (di_flushCh ?ed)" "0 \<le> di_workersGroup ?ed"
    and c: "ch_buf (di_flushCh ?ed) = []" "ch_cap (di_flushCh ?ed) = 1"
    by (simp_all add: sampleDispatcher_def)
  moreover have "CanSendStatsEvent ?m = (True, ?m\<lparr>dm_periodicEventGate := Gate 0 False\<rparr>)"
    by (simp add: CanSendStatsEvent_def NewDiagnosticsManager_def)
  ultimately show ?thesis using diagnosticsTick_effect [of ?ed ?m True _ sampleV 7] c by auto
qed

end
