(* ===== verification/Processor_Interface.thy ===== *)
theory Processor_Interface
  imports Processor_Disabled
begin

text \<open>
  The interface \<open>EventProcessor\<close> of \<open>interfaces.go\<close> as the contract its clients rely on, and its two
  implementations: the default one and the null one of \<open>null_event_processor.go\<close>.
\<close>

section \<open>The contract\<close>

text \<open>
  The recording methods and \<open>Flush\<close> are asynchronous: each returns at once and delivers nothing
  itself. \<open>post m s s'\<close> is the effect of the call that records \<open>m\<close>, \<open>sent\<close> what was delivered so far.
\<close>

locale event_processor =
  fixes post :: "'m \<Rightarrow> 'st \<Rightarrow> 'st \<Rightarrow> bool"
    and posts :: "'m \<Rightarrow> bool"
    and ready :: "'st \<Rightarrow> bool"
    and sent :: "'st \<Rightarrow> 'd list"
  assumes post_returns: "ready s \<Longrightarrow> posts m \<Longrightarrow> \<exists>s'. post m s s'"
    and post_ready: "ready s \<Longrightarrow> post m s s' \<Longrightarrow> ready s'"
    and post_sent: "ready s \<Longrightarrow> post m s s' \<Longrightarrow> sent s' = sent s"
begin

inductive session :: "'m list \<Rightarrow> 'st \<Rightarrow> 'st \<Rightarrow> bool" where
  session_Nil: "session [] s s"
| session_Cons: "post m s s1 \<Longrightarrow> session ms s1 s' \<Longrightarrow> session (m # ms) s s'"

lemma session_returns: "ready s \<Longrightarrow> list_all posts ms \<Longrightarrow> \<exists>s'. session ms s s' \<and> ready s'"
proof (induction ms arbitrary: s)
  case Nil
  then show ?case by (blast intro: session_Nil)
next
  case (Cons m ms)
  obtain s1 where s1: "post m s s1" using post_returns [of s m] Cons.prems by auto
  then have "ready s1" by (rule post_ready [OF Cons.prems(1)])
  then obtain s' where "session ms s1 s'" "ready s'" using Cons.IH [of s1] Cons.prems(2) by auto
  with session_Cons [OF s1] show ?case by blast
qed

lemma session_sent: "session ms s s' \<Longrightarrow> ready s \<Longrightarrow> sent s' = sent s \<and> ready s'"
proof (induction rule: session.induct)
  case (session_Cons m s s1 ms s')
  from post_sent [OF session_Cons.prems session_Cons.hyps(1)]
    post_ready [OF session_Cons.prems session_Cons.hyps(1)] session_Cons.IH
  show ?case by simp
qed simp

end

text \<open>
  With \<open>Close\<close>: once it has returned nothing is delivered any more, whatever runs. Then calls are
  ignored: they change nothing that anyone could see outside.
\<close>

locale closable_processor = event_processor post posts ready sent
  for post :: "'m \<Rightarrow> 'st \<Rightarrow> 'st \<Rightarrow> bool" and posts ready and sent :: "'st \<Rightarrow> 'd list" +
  fixes closed :: "'st \<Rightarrow> bool"
    and goes :: "'st \<Rightarrow> 'st \<Rightarrow> bool"
  assumes post_goes: "post m s s' \<Longrightarrow> goes s s'"
    and goes_keeps: "ready s \<Longrightarrow> closed s \<Longrightarrow> goes s s' \<Longrightarrow> ready s' \<and> closed s' \<and> sent s' = sent s"
begin

lemma session_closed:
  "session ms s s' \<Longrightarrow> ready s \<Longrightarrow> closed s \<Longrightarrow> ready s' \<and> closed s' \<and> sent s' = sent s"
proof (induction rule: session.induct)
  case (session_Cons m s s1 ms s')
  from goes_keeps [OF session_Cons.prems post_goes [OF session_Cons.hyps(1)]] session_Cons.IH
  show ?case by simp
qed simp

lemma calls_ignored:
  assumes "ready s" and "closed s" and "session ms s s'" and "goes s' s''"
  shows "sent s'' = sent s"
  using session_closed [OF assms(3,1,2)] goes_keeps assms(4) by metis

end

section \<open>The null event processor\<close>

datatype nullEventProcessor = NullEventProcessor

definition NewNullEventProcessor :: "nullEventProcessor" where
  "NewNullEventProcessor = NullEventProcessor"

definition null_RecordEvaluation ::
  "nullEventProcessor \<Rightarrow> ('c, 'v, 'r) EvaluationData \<Rightarrow> nullEventProcessor" where
  "null_RecordEvaluation n e = n"

definition null_RecordIdentifyEvent :: "nullEventProcessor \<Rightarrow> 'c IdentifyEventData \<Rightarrow> nullEventProcessor" where
  "null_RecordIdentifyEvent n e = n"

definition null_RecordCustomEvent ::
  "nullEventProcessor \<Rightarrow> ('c, 'v) CustomEventData \<Rightarrow> nullEventProcessor" where
  "null_RecordCustomEvent n e = n"

definition null_RecordMigrationOpEvent ::
  "nullEventProcessor \<Rightarrow> ('c, 'v, 'r) MigrationOpEventData \<Rightarrow> nullEventProcessor" where
  "null_RecordMigrationOpEvent n e = n"

definition null_RecordRawEvent :: "nullEventProcessor \<Rightarrow> bytes \<Rightarrow> nullEventProcessor" where
  "null_RecordRawEvent n data = n"

definition null_Flush :: "nullEventProcessor \<Rightarrow> nullEventProcessor" where
  "null_Flush n = n"

definition null_FlushBlocking :: "nullEventProcessor \<Rightarrow> int \<Rightarrow> bool \<times> nullEventProcessor" where
  "null_FlushBlocking n timeout = (True, n)"

text \<open>The error that \<open>Close\<close> returns, \<open>nil\<close> here.\<close>

definition null_Close :: "nullEventProcessor \<Rightarrow> string option \<times> nullEventProcessor" where
  "null_Close n = (None, n)"

text \<open>The method that a message stands for.\<close>

fun nullPost :: "('c, 'v, 'r) message \<Rightarrow> nullEventProcessor \<Rightarrow> nullEventProcessor" where
  "nullPost (SendEvent (Evaluation e)) n = null_RecordEvaluation n e"
| "nullPost (SendEvent (Identify e)) n = null_RecordIdentifyEvent n e"
| "nullPost (SendEvent (Custom e)) n = null_RecordCustomEvent n e"
| "nullPost (SendEvent (MigrationOp e)) n = null_RecordMigrationOpEvent n e"
| "nullPost (SendEvent (RawEvent data)) n = null_RecordRawEvent n data"
| "nullPost _ n = null_Flush n"

interpretation null: closable_processor "\<lambda>m n n'. n' = nullPost m n" recordable "\<lambda>_. True" "\<lambda>_. []"
    "\<lambda>_. True" "\<lambda>_ _. True"
  by unfold_locales auto

section \<open>The default event processor\<close>

lemma post_enabled:
  assumes "sys_inv s" and "recordable m"
  shows "\<exists>r s'. step k (LPost r m) s s'"
proof -
  have c: "sy_crash s = None" "\<not> ch_closed (sy_inbox s)"
    using assms(1) by (simp_all add: sys_inv_def sync_inv_def)
  show ?thesis
  proof (cases "length (ch_buf (sy_inbox s)) < ch_cap (sy_inbox s)")
    case True
    with c assms(2) have "act k (LPost True m) s \<noteq> None"
      by (simp add: postNonBlocking_def enqueue_def chanSend_def)
    with c show ?thesis by (blast intro: step_act)
  next
    case False
    with assms(2) have "act k (LPost False m) s \<noteq> None" by (simp add: postNonBlocking_def)
    with c show ?thesis by (blast intro: step_act)
  qed
qed

interpretation default: closable_processor "\<lambda>m s s'. \<exists>r. step k (LPost r m) s s'" recordable sys_inv
    sy_sent "\<lambda>s. sy_close s = CloseReturned" "\<lambda>s s'. \<exists>ls. steps k ls s s'"
  for k :: "('a, 'c, 'v, 'r, 's) sdk"
proof unfold_locales
  fix s s' :: "('a, 'c, 'v, 'r, 's) system" and m
  show "sys_inv s \<Longrightarrow> recordable m \<Longrightarrow> \<exists>s' r. step k (LPost r m) s s'"
    using post_enabled by blast
  assume i: "sys_inv s"
  show "\<exists>r. step k (LPost r m) s s' \<Longrightarrow> sys_inv s'" using step_sys_inv [OF i] by blast
  show "\<exists>r. step k (LPost r m) s s' \<Longrightarrow> sy_sent s' = sy_sent s"
    using callers_frame by (fastforce simp: callers_frame_def)
  assume "sy_close s = CloseReturned" and "\<exists>ls. steps k ls s s'"
  then obtain ls where ls: "steps k ls s s'" and pc: "sy_pc s = Stopped"
    using i by (auto simp: sys_inv_def close_inv_def)
  have i': "sys_inv s'" by (rule steps_inv [OF ls i])
  with stopped_steps [OF ls i pc] show "sys_inv s' \<and> sy_close s' = CloseReturned \<and> sy_sent s' = sy_sent s"
    by (auto simp: sys_inv_def close_inv_def)
next
  fix s s' :: "('a, 'c, 'v, 'r, 's) system" and m
  assume "\<exists>r. step k (LPost r m) s s'"
  then obtain r where "step k (LPost r m) s s'" by blast
  from steps_snoc [OF steps_Nil this] show "\<exists>ls. steps k ls s s'" by blast
qed

text \<open>What a burst of calls leaves in a buffered inbox.\<close>

lemma post_step:
  assumes "step k (LPost r m) s s'" and "sync_inv s" and "log_inv s" and "0 < ch_cap (sy_inbox s)"
  shows "ch_cap (sy_inbox s') = ch_cap (sy_inbox s) \<and>
    (if length (ch_buf (sy_inbox s)) < ch_cap (sy_inbox s)
     then ch_buf (sy_inbox s') = ch_buf (sy_inbox s) @ [m] \<and> sy_loggers s' = sy_loggers s
     else ch_buf (sy_inbox s') = ch_buf (sy_inbox s) \<and> sy_loggers s' = [inboxFullMessage])"
  using assms
  by (auto simp: step_iff postNonBlocking_def enqueue_def chanSend_def log_inv_def sync_inv_def
      split: if_splits)

lemma burst_inbox:
  assumes "default.session k ms s s'" and "sys_inv s" and "log_inv s" and "0 < ch_cap (sy_inbox s)"
  shows "ch_buf (sy_inbox s') =
      ch_buf (sy_inbox s) @ take (ch_cap (sy_inbox s) - length (ch_buf (sy_inbox s))) ms \<and>
    sy_loggers s' = (if length (ch_buf (sy_inbox s)) + length ms \<le> ch_cap (sy_inbox s)
      then sy_loggers s else [inboxFullMessage])"
  using assms
proof (induction rule: default.session.induct)
  case (session_Nil s)
  then show ?case by (simp add: sys_inv_def sync_inv_def chan_ok_def)
next
  case (session_Cons m s s1 ms s')
  then obtain r where st: "step k (LPost r m) s s1" by blast
  have sync: "sync_inv s" using session_Cons.prems(1) by (simp add: sys_inv_def)
  then have n: "length (ch_buf (sy_inbox s)) \<le> ch_cap (sy_inbox s)" by (simp add: sync_inv_def chan_ok_def)
  note p = post_step [OF st sync session_Cons.prems(2,3)]
  have "sys_inv s1" by (rule step_sys_inv [OF session_Cons.prems(1) st])
  moreover have "log_inv s1" using act_log_inv st session_Cons.prems(2) by blast
  ultimately have ih: "ch_buf (sy_inbox s') =
      ch_buf (sy_inbox s1) @ take (ch_cap (sy_inbox s1) - length (ch_buf (sy_inbox s1))) ms \<and>
    sy_loggers s' = (if length (ch_buf (sy_inbox s1)) + length ms \<le> ch_cap (sy_inbox s1)
      then sy_loggers s1 else [inboxFullMessage])"
    using session_Cons.IH session_Cons.prems(3) p by simp
  show ?case
  proof (cases "length (ch_buf (sy_inbox s)) < ch_cap (sy_inbox s)")
    case True
    then have "ch_cap (sy_inbox s) - length (ch_buf (sy_inbox s)) =
        Suc (ch_cap (sy_inbox s) - Suc (length (ch_buf (sy_inbox s))))" by simp
    with True ih p show ?thesis by simp
  next
    case False
    with ih p n show ?thesis by simp
  qed
qed

text \<open>
  C26: A burst of recording calls, of any length and with no help from the dispatcher, returns: there
  is always a way for all of them to proceed, and in each the inbox keeps exactly the first of them
  that fit, in order; the others are dropped, and the log then has one warning however many they are.
  Nothing is delivered by a recording call.
\<close>

theorem burst_of_records:
  assumes "reachable k config sampler mgr s" and "0 \<le> cg_UserKeysCapacity config"
    and "0 < ch_cap (sy_inbox s)" and "list_all recordable ms"
  shows "(\<exists>s'. default.session k ms s s') \<and>
    (\<forall>s'. default.session k ms s s' \<longrightarrow>
       ch_buf (sy_inbox s') =
         ch_buf (sy_inbox s) @ take (ch_cap (sy_inbox s) - length (ch_buf (sy_inbox s))) ms \<and>
       sy_loggers s' = (if length (ch_buf (sy_inbox s)) + length ms \<le> ch_cap (sy_inbox s)
         then sy_loggers s else [inboxFullMessage]) \<and>
       sy_sent s' = sy_sent s)"
proof -
  have i: "sys_inv s" by (rule reachable_inv [OF assms(1,2)])
  have l: "log_inv s" by (rule reachable_log [OF assms(1)])
  from default.session_returns [OF i assms(4)] default.session_sent [OF _ i]
    burst_inbox [OF _ i l assms(3)]
  show ?thesis by blast
qed

theorem burst_of_records_witness:
  "\<exists>s'. length (ch_buf (sy_inbox s')) = 100 \<and> sy_loggers s' = [inboxFullMessage] \<and>
    default.session sampleSdk (replicate 101 Flush) sampleInit s'"
proof -
  have c: "0 < ch_cap (sy_inbox sampleInit)" "ch_cap (sy_inbox sampleInit) = 100"
    "ch_buf (sy_inbox sampleInit) = []"
    by (simp_all add: sampleInit_def)
  have "list_all recordable (replicate 101 (Flush :: (sctx, sval, string) message))"
    by (simp add: list_all_iff Flush_def)
  from burst_of_records [OF sampleInit_reachable sampleConfig_keys c(1) this]
  obtain s' where s': "default.session sampleSdk (replicate 101 Flush) sampleInit s'"
    "ch_buf (sy_inbox s') = take 100 (replicate 101 Flush)" "sy_loggers s' = [inboxFullMessage]"
    by (auto simp: c)
  then have "length (ch_buf (sy_inbox s')) = 100" by simp
  with s'(1,3) show ?thesis by blast
qed

end
