(* ===== verification/Processor_Delivery.thy ===== *)
theory Processor_Delivery
  imports Processor_Interface
begin

text \<open>
  From the outbox to the sender: what \<open>FlushBlocking\<close> has delivered when it returns true, and when it
  has not.
\<close>

section \<open>While the dispatcher waits\<close>

lemma waiting_frame:
  assumes "sync_inv s" and "waiting (sy_pc s)" and "act k l s = Some s'" and "l \<noteq> LWait"
  shows "sy_pc s' = sy_pc s \<and> di_outbox (sy_ed s') = di_outbox (sy_ed s)"
proof -
  have pc: "\<not> afterClose (sy_pc s)" "sy_pc s \<noteq> AtSelect" using assms(2) by (cases "sy_pc s"; simp)+
  show ?thesis
  proof (cases "isCaller l")
    case True
    with caller_core [OF assms(3) True pc(2)] assms(1) show ?thesis
      by (simp add: sync_inv_def same_core_def)
  next
    case False
    with assms show ?thesis
    proof (cases l)
      case (LTake i)
      with assms(3) show ?thesis by (auto elim!: workerTakeE)
    next
      case (LWorkerSend i r)
      with assms(3) show ?thesis by (auto elim!: workerSendE)
    next
      case (LWorkerPost i)
      with assms(3) show ?thesis using open_state(3) [OF assms(1) pc(1)] by (auto elim!: workerPostE)
    next
      case (LWorkerDone i)
      with assms(3) show ?thesis
        by (auto simp: workerDone_def orCrash_def go_bind_def split: if_splits sum.splits)
    qed (auto simp: receiveMessage_def handleMessage_def shutdownReply_def receiveResult_def tickStep_def
        split: if_splits dispatcherPc.splits)
  qed
qed

lemma waiting_frames:
  "steps k ls s s' \<Longrightarrow> sys_inv s \<Longrightarrow> waiting (sy_pc s) \<Longrightarrow> LWait \<notin> set ls \<Longrightarrow>
     sy_pc s' = sy_pc s \<and> di_outbox (sy_ed s') = di_outbox (sy_ed s)"
proof (induction rule: steps.induct)
  case (steps_snoc ls s s' l s'')
  have "sync_inv s'" using steps_inv [OF steps_snoc.hyps(1) steps_snoc.prems(1)] by (simp add: sys_inv_def)
  from waiting_frame [OF this, of k l s''] steps_snoc show ?case by auto
qed simp

section \<open>\<open>FlushBlocking\<close>\<close>

text \<open>
  C4: What \<open>FlushBlocking\<close> promises holds if the flush channel is empty when its message is handled:
  when \<open>Wait\<close> then returns, after any steps of all the goroutines, the outbox and the summary are
  empty, and every event accepted so far has been handed to the sender, unless it was thrown away
  because the server told the SDK to stop; then the reply is sent.
\<close>

theorem flush_blocking_delivers:
  assumes "reachable k config sampler mgr s" and "0 \<le> cg_UserKeysCapacity config"
    and "sy_pc s = Handling (FlushEvents (Some i))" and "ch_buf (di_flushCh (sy_ed s)) = []"
    and "step k (LHandle now) s s1" and "steps k ls s1 s2" and "LWait \<notin> set ls" and "step k LWait s2 s3"
  shows "pendingCount (di_outbox (sy_ed s3)) = 0 \<and>
    mset (sy_accepted s3) = mset (sentEvents s3) + mset (sy_discarded s3) \<and> i \<in> set (sy_replied s3)"
proof -
  have i0: "sys_inv s" by (rule reachable_inv [OF assms(1,2)])
  have i1: "sys_inv s1" by (rule step_sys_inv [OF i0 assms(5)])
  have i2: "sys_inv s2" by (rule steps_inv [OF assms(6) i1])
  have sync: "sync_inv s" using i0 by (simp add: sys_inv_def)
  note o = open_state [OF sync]
  have pc: "\<not> afterClose (sy_pc s)" by (simp add: assms(3))
  have cap: "ch_cap (di_flushCh (sy_ed s)) = 1" using sync by (simp add: sync_inv_def shared_ok_def)
  have off: "di_disabled (sy_ed s) \<Longrightarrow> pendingCount (di_outbox (sy_ed s)) = 0"
    using sync by (simp add: sync_inv_def disp_ok_def)
  have h: "handleMessage k now s = Some s1" using assms(5) by auto
  then have s1: "sy_pc s1 = WaitFlush i" "pendingCount (di_outbox (sy_ed s1)) = 0"
    using assms(3,4) cap off triggerFlush_eq [OF o(2,4) [OF pc], of "sk_V k"]
    by (auto simp: handleMessage_def orCrash_def flushed_def split: if_splits)
  have s2: "sy_pc s2 = WaitFlush i" "pendingCount (di_outbox (sy_ed s2)) = 0"
    using waiting_frames [OF assms(6) i1 _ assms(7)] s1 by simp_all
  have w: "waitReturns s2 = Some s3" using assms(8) by auto
  then have wg: "di_workersGroup (sy_ed s2) = 0" by (auto simp: waitReturns_def split: if_splits)
  have "outboxEvents (sy_ed s2) = []" using s2(2) by (simp add: pendingCount_0 outboxEvents_def)
  then have "mset (sy_accepted s2) = mset (sentEvents s2) + mset (sy_discarded s2)"
    using i2 idle_nothing(1) [OF i2 wg] by (simp add: sys_inv_def conserved_def)
  with w s2 show ?thesis
    by (auto simp: waitReturns_def sentEvents_def split: if_splits)
qed

theorem flush_blocking_delivers_witness:
  "\<exists>s3. reachable sampleSdk sampleConfig 0 None s3 \<and> sy_accepted s3 = [RawEvent ''a''] \<and>
    mset (sy_accepted s3) = mset (sentEvents s3) + mset (sy_discarded s3)"
proof -
  let ?pre = "recordTrace ''a'' @ [LCallBegin (FlushBlocking 0), LCallSend 0, LReceive]"
  let ?mid = "deliverTrace 0"
  have "case run sampleSdk ?pre sampleInit of None \<Rightarrow> False
    | Some s \<Rightarrow> sy_crash s = None \<and> sy_pc s = Handling (FlushEvents (Some 0)) \<and> ch_buf (di_flushCh (sy_ed s)) = [] \<and>
      (case act sampleSdk (LHandle 0) s of None \<Rightarrow> False
       | Some s1 \<Rightarrow> (case run sampleSdk ?mid s1 of None \<Rightarrow> False
         | Some s2 \<Rightarrow> sy_crash s2 = None \<and> (case act sampleSdk LWait s2 of None \<Rightarrow> False
           | Some s3 \<Rightarrow> sy_accepted s3 = [RawEvent ''a''])))"
    by code_simp
  then obtain s s1 s2 s3 where s: "run sampleSdk ?pre sampleInit = Some s" "sy_crash s = None"
    "sy_pc s = Handling (FlushEvents (Some 0))" "ch_buf (di_flushCh (sy_ed s)) = []"
    "act sampleSdk (LHandle 0) s = Some s1" "run sampleSdk ?mid s1 = Some s2" "sy_crash s2 = None"
    "act sampleSdk LWait s2 = Some s3" "sy_accepted s3 = [RawEvent ''a'']"
    by (auto split: option.splits)
  have r: "reachable sampleSdk sampleConfig 0 None s"
    by (rule run_reachable [OF sampleInit_reachable s(1)])
  have st: "step sampleSdk (LHandle 0) s s1" "step sampleSdk LWait s2 s3"
    using s by (blast intro: step_act)+
  have ss: "steps sampleSdk ?mid s1 s2" by (rule run_steps) (rule s(6))
  have "LWait \<notin> set ?mid" by (simp add: deliverTrace_def)
  from flush_blocking_delivers [OF r sampleConfig_keys s(3,4) st(1) ss this st(2)]
    steps_reachable [OF ss reachable_step [OF r st(1)]] reachable_step [OF _ st(2)] s(9)
  show ?thesis by blast
qed

definition skipTrace :: "(sctx, sval, string) label list" where
  "skipTrace = recordTrace ''a'' @ flushTrace @ recordTrace ''b'' @
     [LCallBegin (FlushBlocking 0), LCallSend 0, LReceive, LHandle 0] @ deliverTrace 0 @ [LWait, LCallReturn 0]"

text \<open>
  C30: Without that condition the promise fails. There is a run, with no error and no timeout, in which
  \<open>FlushBlocking\<close> returns true while an event that was recorded and handled before it was called is
  still in the outbox: the payload of an earlier flush was still in the channel, so that nothing was
  flushed, and only the earlier payload was waited for.
\<close>

theorem flush_blocking_skips:
  "\<exists>s. reachable sampleSdk sampleConfig 0 None s \<and> sy_calls s = [(FlushBlocking 0, CallReturned True)] \<and>
     outboxEvents (sy_ed s) = [RawEvent ''b''] \<and> sentEvents s = [RawEvent ''a'']"
proof -
  have "case run sampleSdk skipTrace sampleInit of None \<Rightarrow> False
    | Some s \<Rightarrow> sy_calls s = [(FlushBlocking 0, CallReturned True)] \<and>
        outboxEvents (sy_ed s) = [RawEvent ''b''] \<and> sentEvents s = [RawEvent ''a'']"
    by code_simp
  with run_reachable [OF sampleInit_reachable, of skipTrace] show ?thesis by (auto split: option.splits)
qed

end
