(* ===== verification/Processor_Bounds.thy ===== *)
theory Processor_Bounds
  imports Processor_Delivery
begin

text \<open>
  Bounds on everything the event processor keeps: the capacities of the configuration are those of the
  inbox, the outbox and the key cache in every reachable state, and no payload has more events than
  the outbox can hold.
\<close>

section \<open>The capacities\<close>

text \<open>A handler keeps the capacities, and a payload it adds is no longer than the outbox allows.\<close>

definition caps_kept ::
  "('a, 'c, 'v, 'r, 's) eventDispatcher \<Rightarrow> ('a, 'c, 'v, 'r, 's) eventDispatcher \<Rightarrow> bool" where
  "caps_kept ed ed' \<longleftrightarrow>
     ob_capacity (di_outbox ed') = ob_capacity (di_outbox ed) \<and>
     lc_capacity (di_userKeys ed') = lc_capacity (di_userKeys ed) \<and>
     (\<forall>p \<in> set (ch_buf (di_flushCh ed')) - set (ch_buf (di_flushCh ed)).
        int (length (fl_events p)) \<le> ob_capacity (di_outbox ed))"

lemma processEvent_caps:
  assumes "disp_ok ed" and "processEvent C smp now ed evt = Inr ed'"
  shows "caps_kept ed ed'"
proof (cases "di_disabled ed")
  case True
  with assms(2) show ?thesis by (simp add: processEvent_disabled caps_kept_def)
next
  case False
  have ob: "outbox_inv (di_outbox ed)" and lru: "lru_inv (di_userKeys ed)"
    using assms(1) by (simp_all add: disp_ok_def)
  obtain uk where "ed' = afterEvent C smp now ed evt uk" "lc_capacity uk = lc_capacity (di_userKeys ed)"
    using processEvent_eq [OF False lru, of C smp now evt] assms(2) by auto
  with afterEvent_events(2) [OF ob] show ?thesis by (simp add: caps_kept_def)
qed

lemma getPayload_events [simp]: "fl_events (getPayload V b) = ob_events b"
  by (simp add: getPayload_def)

lemma triggerFlush_caps:
  assumes "disp_ok ed" and "\<not> ch_closed (di_flushCh ed)" and "0 \<le> di_workersGroup ed"
    and "triggerFlush V ed = Inr ed'"
  shows "caps_kept ed ed'"
  using assms
  by (auto simp: triggerFlush_eq flushed_def caps_kept_def disp_ok_def outbox_inv_def split: if_splits)

lemma diagnosticsTick_caps:
  assumes "disp_ok ed" and "\<not> ch_closed (di_flushCh ed)" and "0 \<le> di_workersGroup ed"
    and "diagnosticsTick V now ed mgr = Inr (ed', mgr')"
  shows "caps_kept ed ed'"
proof (cases mgr)
  case None
  with assms(4) show ?thesis by (simp add: diagnosticsTick_def caps_kept_def)
next
  case (Some m)
  let ?ed = "ed\<lparr>di_outbox := (di_outbox ed)\<lparr>ob_droppedEvents := 0\<rparr>, di_deduplicatedContexts := 0,
    di_eventsInLastBatch := 0\<rparr>"
  have i: "\<not> ch_closed (di_flushCh ?ed)" "0 \<le> di_workersGroup ?ed" using assms by simp_all
  have "0 \<le> ob_capacity (di_outbox ed)" using assms(1) by (simp add: disp_ok_def outbox_inv_def)
  with Some assms(4) show ?thesis
    by (auto simp: diagnosticsTick_def CreateStatsEventAndReset_def Let_def sendDiagnosticsEvent_eq [OF i]
        caps_kept_def diagnosticPayload_def split: prod.splits if_splits)
qed

lemma handleResult_caps: "caps_kept ed (handleResult ed r)"
  by (auto simp: handleResult_def caps_kept_def)

lemma usersResetTick_caps: "caps_kept ed (usersResetTick ed)"
  by (simp add: usersResetTick_def caps_kept_def lru_clear_def)

section \<open>The invariant\<close>

definition fits :: "'a EventsConfiguration \<Rightarrow> ('c, 'v, 'r) flushPayload \<Rightarrow> bool" where
  "fits config p \<longleftrightarrow> int (length (fl_events p)) \<le> cg_Capacity config"

definition caps_inv :: "'a EventsConfiguration \<Rightarrow> ('a, 'c, 'v, 'r, 's) system \<Rightarrow> bool" where
  "caps_inv config s \<longleftrightarrow>
     ob_capacity (di_outbox (sy_ed s)) = cg_Capacity config \<and>
     lc_capacity (di_userKeys (sy_ed s)) = cg_UserKeysCapacity config \<and>
     ch_cap (sy_inbox s) = nat (cg_Capacity config) \<and>
     (\<forall>p \<in> set (openPayloads s). fits config p) \<and>
     (\<forall>d \<in> set (sy_sent s). fits config (dl_payload d))"

lemma enqueue_cap: "enqueue m s = Some s' \<Longrightarrow> ch_cap (sy_inbox s') = ch_cap (sy_inbox s)"
  using chan.put_items
  by (fastforce simp: enqueue_def split: sum.splits option.splits if_splits)

lemma caller_cap:
  assumes "act k l s = Some s'" and "isCaller l"
  shows "ch_cap (sy_inbox s') = ch_cap (sy_inbox s)"
proof (cases l)
  case (LPost ready m)
  with assms show ?thesis by (auto simp: postNonBlocking_def dest: enqueue_cap split: if_splits)
next
  case (LCallSend i)
  with assms show ?thesis by (auto elim!: callSendE dest: enqueue_cap)
next
  case LClose
  with assms have "closeStep s = Some s'" by simp
  then show ?thesis by (cases rule: closeStepE) (auto dest: enqueue_cap)
qed (use assms in \<open>auto simp: callBegin_def elim!: callReturnE callTimeoutE\<close>)

lemma caps_inv_handler:
  assumes "caps_inv config s" and "caps_kept (sy_ed s) (sy_ed s')" and "sy_workers s' = sy_workers s"
    and "sy_sent s' = sy_sent s" and "ch_cap (sy_inbox s') = ch_cap (sy_inbox s)"
  shows "caps_inv config s'"
  using assms by (auto simp: caps_inv_def caps_kept_def openPayloads_def fits_def)

lemma caps_inv_same:
  assumes "caps_inv config s" and "di_outbox (sy_ed s') = di_outbox (sy_ed s)"
    and "di_userKeys (sy_ed s') = di_userKeys (sy_ed s)" and "sy_inbox s' = sy_inbox s"
    and "set (openPayloads s') \<subseteq> set (openPayloads s)"
    and "dl_payload ` set (sy_sent s') \<subseteq> dl_payload ` set (sy_sent s) \<union> set (openPayloads s)"
  shows "caps_inv config s'"
proof -
  have "\<forall>p \<in> dl_payload ` set (sy_sent s). fits config p" using assms(1) by (simp add: caps_inv_def)
  then have "\<forall>p \<in> dl_payload ` set (sy_sent s'). fits config p"
    using assms(1,6) by (auto simp: caps_inv_def simp del: image_iff ball_simps)
  then show ?thesis using assms by (auto simp: caps_inv_def)
qed

lemma act_caps:
  assumes inv: "sync_inv s" and c: "caps_inv config s" and act: "act k l s = Some s'"
  shows "caps_inv config s'"
proof (cases "isCaller l")
  case True
  from callers_frame [OF act True] caller_cap [OF act True] c show ?thesis
    by (intro caps_inv_handler [OF c]) (simp_all add: callers_frame_def caps_kept_def)
next
  case False
  then show ?thesis
  proof (cases l)
    case LReceive
    with act show ?thesis
      by (auto elim!: receiveMessageE intro!: caps_inv_handler [OF c] simp: caps_kept_def)
  next
    case (LHandle now)
    then have h: "handleMessage k now s = Some s'" using act by simp
    note o = handling_open [OF inv h]
    from h o(1,2,4) show ?thesis
    proof (cases rule: handleMessageE)
      case (event evt ed)
      with processEvent_caps [OF o(1) event(2)] show ?thesis by (intro caps_inv_handler [OF c]) simp_all
    next
      case (flush r ed)
      with triggerFlush_caps [OF o(1,2,4) flush(2)] show ?thesis by (intro caps_inv_handler [OF c]) simp_all
    next
      case (waits pc)
      then show ?thesis by (intro caps_inv_handler [OF c]) (simp_all add: caps_kept_def)
    qed
  next
    case LWait
    then have "waitReturns s = Some s'" using act by simp
    then show ?thesis
      by (cases rule: waitReturnsE) (auto intro!: caps_inv_handler [OF c] simp: caps_kept_def)
  next
    case LShutdownReply
    with act show ?thesis
      by (auto elim!: shutdownReplyE intro!: caps_inv_handler [OF c] simp: caps_kept_def)
  next
    case LResult
    then have h: "receiveResult s = Some s'" using act by simp
    from h result_open [OF inv h] show ?thesis
    proof (cases rule: receiveResultE)
      case (1 r rs ed)
      with handleResult_caps [of ed r] show ?thesis
        by (intro caps_inv_handler [OF c]) (simp_all add: caps_kept_def)
    qed
  next
    case (LTick t)
    then have h: "tickStep k t s = Some s'" using act by simp
    note o = ticking_open [OF inv h]
    from h o(1,2,4) show ?thesis
    proof (cases rule: tickStepE)
      case (flush ed)
      with triggerFlush_caps [OF o(1,2,4) flush(2)] show ?thesis by (intro caps_inv_handler [OF c]) simp_all
    next
      case users
      with usersResetTick_caps [of "sy_ed s"] show ?thesis by (intro caps_inv_handler [OF c]) simp_all
    next
      case (diagnostics now ed mgr)
      with diagnosticsTick_caps [OF o(1,2,4) diagnostics(2)] show ?thesis
        by (intro caps_inv_handler [OF c]) simp_all
    qed
  next
    case (LTake i)
    then have "workerTake i s = Some s'" using act by simp
    then show ?thesis
    proof (cases rule: workerTakeE)
      case (takes p ps)
      then have "set (openPayloads s') \<subseteq> set (openPayloads s)"
        by (intro openPayloads_sub [of i s s' "Working p"]) (auto simp: openPayloads_def)
      with takes show ?thesis by (intro caps_inv_same [OF c]) (auto simp: setWorker_def)
    next
      case exits
      then have "set (openPayloads s') \<subseteq> set (openPayloads s)"
        by (intro openPayloads_sub [of i s s' Exited]) (auto simp: openPayloads_def)
      with exits show ?thesis by (intro caps_inv_same [OF c]) (auto simp: setWorker_def)
    qed
  next
    case (LWorkerSend i r)
    then have "workerSend k i r s = Some s'" using act by simp
    then show ?thesis
    proof (cases rule: workerSendE)
      case (sends p kind body n w)
      have "workingPayloads w = []" using sends(3) by auto
      with sends have "set (openPayloads s') \<subseteq> set (openPayloads s)"
        by (intro openPayloads_sub [of i s s' w]) (auto simp: openPayloads_def)
      moreover have "p \<in> set (openPayloads s)"
        using openPayloads_mem [OF sends(1,2)] by (simp add: openPayloads_def)
      ultimately show ?thesis using sends by (intro caps_inv_same [OF c]) (auto simp: setWorker_def)
    next
      case (nothing p n)
      note s' = this(5) and i = this(1)
      have "set (openPayloads s') \<subseteq> set (openPayloads s)"
        by (rule openPayloads_sub [OF i, of s' Finishing]) (auto simp: openPayloads_def s')
      then show ?thesis
        by (rule caps_inv_same [OF c, rotated 3]) (simp_all add: s' setWorker_def)
    qed
  next
    case (LWorkerPost i)
    then have h: "workerPost i s = Some s'" using act by simp
    from h post_open [OF inv h] show ?thesis
    proof (cases rule: workerPostE)
      case (1 r)
      then have "set (openPayloads s') \<subseteq> set (openPayloads s)"
        by (intro openPayloads_sub [of i s s' Finishing]) (auto simp: openPayloads_def)
      with 1 show ?thesis by (intro caps_inv_same [OF c]) (auto simp: setWorker_def)
    qed
  next
    case (LWorkerDone i)
    then have h: "workerDone i s = Some s'" using act by simp
    from h done_counted [OF inv h] show ?thesis
    proof (cases rule: workerDoneE)
      case 1
      then have "set (openPayloads s') \<subseteq> set (openPayloads s)"
        by (intro openPayloads_sub [of i s s' Idle]) (auto simp: openPayloads_def)
      with 1 show ?thesis by (intro caps_inv_same [OF c]) (auto simp: setWorker_def)
    qed
  qed simp_all
qed

lemma sendDiagnosticsEvent_caps:
  assumes "sendDiagnosticsEvent ed event = Inr ed'" and "\<not> ch_closed (di_flushCh ed)"
    and "0 \<le> di_workersGroup ed" and "0 \<le> ob_capacity (di_outbox ed)"
  shows "caps_kept ed ed'"
  using assms(1,4) unfolding sendDiagnosticsEvent_eq [OF assms(2,3)]
  by (auto simp: caps_kept_def diagnosticPayload_def split: if_splits)

lemma start_caps:
  fixes s :: "('a, 'c, 'v, 'r, 's) system"
  assumes "NewDefaultEventProcessor k config sampler mgr = Inr s"
  shows "caps_inv config s"
proof -
  obtain ed where ed: "startEventDispatcher (sk_V k) (sk_runtime k) config sampler mgr = Inr ed"
    and cap: "0 \<le> cg_Capacity config" and s: "sy_ed s = ed" "sy_sent s = []"
      "sy_inbox s = makeChan (nat (cg_Capacity config))" "sy_workers s = replicate maxFlushWorkers Idle"
    using assms by (auto simp: NewDefaultEventProcessor_def go_bind_eq_Inr split: if_splits)
  obtain ob :: "('c, 'v, 'r) eventsOutbox" where ob: "newEventsOutbox (cg_Capacity config) = Inr ob"
    using ed by (auto simp: startEventDispatcher_def go_bind_eq_Inr)
  then have ob_cap: "ob_capacity ob = cg_Capacity config" by (auto simp: newEventsOutbox_def split: if_splits)
  define ed0 where "ed0 = \<lparr>di_config = config, di_outbox = ob, di_flushCh = makeChan 1,
    di_senderResultCh = makeChan maxFlushWorkers, di_workersGroup = 0,
    di_userKeys = newLruCache (cg_UserKeysCapacity config),
    di_lastKnownPastTime = 0, di_deduplicatedContexts = 0,
    di_eventsInLastBatch = 0, di_disabled = False, di_sampler = sampler\<rparr>"
  have "caps_kept ed0 ed"
  proof (cases mgr)
    case None
    with ed ob show ?thesis by (simp add: startEventDispatcher_def Let_def ed0_def caps_kept_def)
  next
    case (Some m)
    with ed ob have "sendDiagnosticsEvent ed0 (CreateInitEvent (sk_V k) (sk_runtime k) m) = Inr ed"
      by (simp add: startEventDispatcher_def Let_def ed0_def)
    then show ?thesis
      by (rule sendDiagnosticsEvent_caps) (simp_all add: ed0_def cap ob_cap)
  qed
  moreover have "concat (map workingPayloads (replicate n Idle)) = []" for n by (induction n) simp_all
  ultimately show ?thesis
    using s ob_cap
    by (simp add: caps_inv_def caps_kept_def openPayloads_def ed0_def newLruCache_def fits_def)
qed

lemma reachable_caps:
  "reachable k config sampler mgr s \<Longrightarrow> 0 \<le> cg_UserKeysCapacity config \<Longrightarrow> caps_inv config s"
proof (induction rule: reachable.induct)
  case (reachable_start s)
  then show ?case by (simp add: start_caps)
next
  case (reachable_step s l s')
  then have "sync_inv s" using reachable_inv [OF reachable_step.hyps(1)] by (simp add: sys_inv_def)
  with reachable_step show ?case by (auto intro: act_caps)
qed

text \<open>
  C13: The memory of the event processor is bounded by its configuration in every reachable state: the
  inbox and the outbox hold at most \<open>Capacity\<close> items, the key cache at most \<open>UserKeysCapacity\<close> distinct
  keys with its map and its list in agreement, and the summary's maps have distinct keys; five workers
  and a queue of one hold at most six payloads, and no payload, queued, in work or sent, has more than
  \<open>Capacity\<close> events.
\<close>

theorem bounded_memory:
  assumes "reachable k config sampler mgr s" and "0 \<le> cg_UserKeysCapacity config"
  shows "int (length (ch_buf (sy_inbox s))) \<le> cg_Capacity config \<and>
    int (length (ob_events (di_outbox (sy_ed s)))) \<le> cg_Capacity config \<and>
    int (length (lru_keys (di_userKeys (sy_ed s)))) \<le> cg_UserKeysCapacity config \<and>
    distinct (lru_keys (di_userKeys (sy_ed s))) \<and>
    set (map fst (lc_values (di_userKeys (sy_ed s)))) = set (lru_keys (di_userKeys (sy_ed s))) \<and>
    summary_wf (eventsState (ob_summarizer (di_outbox (sy_ed s)))) \<and>
    length (openPayloads s) \<le> 6 \<and>
    list_all (\<lambda>p. int (length (fl_events p)) \<le> cg_Capacity config)
      (openPayloads s @ map dl_payload (sy_sent s))"
proof -
  have c: "caps_inv config s" by (rule reachable_caps [OF assms])
  have s: "sync_inv s" using reachable_inv [OF assms] by (simp add: sys_inv_def)
  then have o: "outbox_inv (di_outbox (sy_ed s))" and l: "lru_inv (di_userKeys (sy_ed s))"
    and w: "length (sy_workers s) = 5" "length (ch_buf (di_flushCh (sy_ed s))) \<le> 1"
    by (simp_all add: sync_inv_def disp_ok_def shared_ok_def chan_ok_def maxFlushWorkers_def)
  have "length (concat (map workingPayloads ws)) \<le> length ws" for ws :: "('b, 'c, 'd) worker list"
  proof (induction ws)
    case (Cons v ws)
    then show ?case by (cases v) simp_all
  qed simp
  from this [of "sy_workers s"] have "length (openPayloads s) \<le> 6"
    using w by (simp add: openPayloads_def)
  moreover have "int (length (ob_events (di_outbox (sy_ed s)))) \<le> cg_Capacity config"
    using o c by (simp add: outbox_inv_def caps_inv_def)
  moreover from this have "0 \<le> cg_Capacity config" by linarith
  then have "int (length (ch_buf (sy_inbox s))) \<le> cg_Capacity config"
    using s c by (simp add: sync_inv_def chan_ok_def caps_inv_def le_nat_iff)
  moreover have "set (map fst (lc_values (di_userKeys (sy_ed s)))) = set (lru_keys (di_userKeys (sy_ed s)))"
    using l by (auto simp: lru_inv_def lru_keys_def image_image split_def)
  ultimately show ?thesis
    using o l c by (auto simp: outbox_inv_def lru_inv_def lru_keys_def caps_inv_def fits_def list_all_iff)
qed

theorem bounded_memory_witness:
  "\<exists>s. reachable sampleSdk sampleConfig 0 None s \<and> length (sy_sent s) = 1 \<and>
    list_all (\<lambda>p. int (length (fl_events p)) \<le> cg_Capacity sampleConfig) (map dl_payload (sy_sent s))"
proof -
  have "case run sampleSdk lossTrace sampleInit of None \<Rightarrow> False | Some s \<Rightarrow> length (sy_sent s) = 1"
    by code_simp
  then obtain s where s: "run sampleSdk lossTrace sampleInit = Some s" "length (sy_sent s) = 1"
    by (auto split: option.splits)
  have r: "reachable sampleSdk sampleConfig 0 None s"
    by (rule run_reachable [OF sampleInit_reachable s(1)])
  from bounded_memory [OF r sampleConfig_keys] r s(2) show ?thesis by auto
qed

end
