(* ===== verification/Processor_Bodies.thy ===== *)
theory Processor_Bodies
  imports Processor_Bounds
begin

text \<open>
  What the sender is handed: in every reachable state, each call of \<open>SendEventData\<close> carries the
  formatted document of the payload it was made for, or that payload's diagnostic event, and a payload
  with a diagnostic event has no other events.
\<close>

section \<open>Payloads and bodies\<close>

definition wellMade :: "'v value_api \<Rightarrow> ('c, 'v, 'r) flushPayload \<Rightarrow> bool" where
  "wellMade V p \<longleftrightarrow> fl_diagnosticEvent p = v_null V \<or> fl_events p = []"

definition handedOver ::
  "('a, 'c, 'v, 'r, 's) sdk \<Rightarrow> 'a EventsConfiguration \<Rightarrow> ('c, 'v, 'r) delivery \<Rightarrow> bool" where
  "handedOver k config d \<longleftrightarrow>
     (if v_isNull (sk_V k) (fl_diagnosticEvent (dl_payload d)) then
        dl_kind d = AnalyticsEventDataKind \<and>
        outputOf k config (dl_payload d) = Some (Some (dl_body d), dl_count d)
      else dl_kind d = DiagnosticEventDataKind \<and>
        dl_body d = [WValue (fl_diagnosticEvent (dl_payload d))] \<and> dl_count d = 1)"

text \<open>A handler keeps the configuration, and what it adds to the flush channel is well made.\<close>

definition bodies_kept ::
  "'v value_api \<Rightarrow> ('a, 'c, 'v, 'r, 's) eventDispatcher \<Rightarrow> ('a, 'c, 'v, 'r, 's) eventDispatcher \<Rightarrow> bool" where
  "bodies_kept V ed ed' \<longleftrightarrow> di_config ed' = di_config ed \<and>
     (\<forall>p \<in> set (ch_buf (di_flushCh ed')) - set (ch_buf (di_flushCh ed)). wellMade V p)"

lemma wellMade_simps [simp]:
  "wellMade V (getPayload V b)" "wellMade V (diagnosticPayload v)"
  by (simp_all add: wellMade_def getPayload_def diagnosticPayload_def)

lemma bodies_kept_refl [simp]: "bodies_kept V ed ed"
  by (simp add: bodies_kept_def)

lemma processEvent_bodies:
  assumes "disp_ok ed" and "processEvent C smp now ed evt = Inr ed'"
  shows "bodies_kept V ed ed'"
  using processEvent_ok [OF assms(1), of C smp now evt] assms(2)
  by (auto simp: bodies_kept_def sync_frame_def)

lemma triggerFlush_bodies:
  assumes "\<not> ch_closed (di_flushCh ed)" and "0 \<le> di_workersGroup ed" and "triggerFlush V ed = Inr ed'"
  shows "bodies_kept V ed ed'"
  using assms by (auto simp: triggerFlush_eq flushed_def bodies_kept_def split: if_splits)

lemma sendDiagnosticsEvent_bodies:
  assumes "sendDiagnosticsEvent ed event = Inr ed'" and "\<not> ch_closed (di_flushCh ed)"
    and "0 \<le> di_workersGroup ed"
  shows "bodies_kept V ed ed'"
  using assms(1) unfolding sendDiagnosticsEvent_eq [OF assms(2,3)]
  by (auto simp: bodies_kept_def split: if_splits)

lemma diagnosticsTick_bodies:
  assumes "\<not> ch_closed (di_flushCh ed)" and "0 \<le> di_workersGroup ed"
    and "diagnosticsTick V now ed mgr = Inr (ed', mgr')"
  shows "bodies_kept V ed ed'"
proof (cases mgr)
  case None
  with assms(3) show ?thesis by (simp add: diagnosticsTick_def)
next
  case (Some m)
  let ?ed = "ed\<lparr>di_outbox := (di_outbox ed)\<lparr>ob_droppedEvents := 0\<rparr>, di_deduplicatedContexts := 0,
    di_eventsInLastBatch := 0\<rparr>"
  have i: "\<not> ch_closed (di_flushCh ?ed)" "0 \<le> di_workersGroup ?ed" using assms by simp_all
  from Some assms(3) show ?thesis
    by (auto simp: diagnosticsTick_def CreateStatsEventAndReset_def Let_def sendDiagnosticsEvent_eq [OF i]
        bodies_kept_def split: prod.splits if_splits)
qed

section \<open>The invariant\<close>

definition bodies_inv ::
  "('a, 'c, 'v, 'r, 's) sdk \<Rightarrow> 'a EventsConfiguration \<Rightarrow> ('a, 'c, 'v, 'r, 's) system \<Rightarrow> bool" where
  "bodies_inv k config s \<longleftrightarrow>
     di_config (sy_ed s) = config \<and> (\<forall>p \<in> set (openPayloads s). wellMade (sk_V k) p) \<and>
     (\<forall>d \<in> set (sy_sent s). wellMade (sk_V k) (dl_payload d) \<and> handedOver k config d)"

lemma bodies_inv_handler:
  assumes "bodies_inv k config s" and "bodies_kept (sk_V k) (sy_ed s) (sy_ed s')"
    and "sy_workers s' = sy_workers s" and "sy_sent s' = sy_sent s"
  shows "bodies_inv k config s'"
  using assms by (auto simp: bodies_inv_def bodies_kept_def openPayloads_def)

text \<open>A worker only passes payloads on, and at most adds a delivery that is as it should be.\<close>

lemma bodies_inv_worker:
  assumes inv: "bodies_inv k config s" and i: "i < length (sy_workers s)"
    and s': "sy_workers s' = (sy_workers s)[i := w]" "di_config (sy_ed s') = di_config (sy_ed s)"
    and sub: "set (ch_buf (di_flushCh (sy_ed s'))) \<union> set (workingPayloads w) \<subseteq> set (openPayloads s)"
    and sent: "\<And>d. d \<in> set (sy_sent s') \<Longrightarrow> d \<notin> set (sy_sent s) \<Longrightarrow>
      dl_payload d \<in> set (openPayloads s) \<and> handedOver k config d"
  shows "bodies_inv k config s'"
  using openPayloads_sub [OF i s'(1) sub] inv s'(2) sent unfolding bodies_inv_def by blast

lemma workerSend_bodies:
  assumes inv: "bodies_inv k config s" and "workerSend k i r s = Some s'"
  shows "bodies_inv k config s'"
  using assms(2)
proof (cases rule: workerSendE)
  case (sends p kind body n w)
  let ?d = "\<lparr>dl_kind = kind, dl_body = body, dl_count = n, dl_payload = p, dl_result = r\<rparr>"
  have "di_config (sy_ed s) = config" using inv by (simp add: bodies_inv_def)
  then have d: "handedOver k config ?d" using sends(3) by (auto simp: handedOver_def)
  have "p \<in> set (openPayloads s)"
    using openPayloads_mem [OF sends(1,2)] by (simp add: openPayloads_def)
  moreover have "workingPayloads w = []" using sends(3) by auto
  ultimately show ?thesis
    using sends(1,4) d by (intro bodies_inv_worker [OF inv, of i s' w])
      (auto simp: openPayloads_def setWorker_def)
next
  case (nothing p n)
  note i = this(1) and s' = this(5)
  show ?thesis
    by (rule bodies_inv_worker [OF inv i, of s' Finishing]) (auto simp: openPayloads_def setWorker_def s')
qed

lemma act_bodies:
  assumes inv: "sync_inv s" and c: "bodies_inv k config s" and act: "act k l s = Some s'"
  shows "bodies_inv k config s'"
proof (cases "isCaller l")
  case True
  from callers_frame [OF act True] show ?thesis
    by (intro bodies_inv_handler [OF c]) (simp_all add: callers_frame_def)
next
  case False
  then show ?thesis
  proof (cases l)
    case LReceive
    with act show ?thesis by (auto elim!: receiveMessageE intro!: bodies_inv_handler [OF c])
  next
    case (LHandle now)
    then have h: "handleMessage k now s = Some s'" using act by simp
    note o = handling_open [OF inv h]
    from h o(1,2,4) show ?thesis
    proof (cases rule: handleMessageE)
      case (event evt ed)
      with processEvent_bodies [OF o(1) event(2)] show ?thesis
        by (intro bodies_inv_handler [OF c]) simp_all
    next
      case (flush r ed)
      with triggerFlush_bodies [OF o(2,4) flush(2)] show ?thesis
        by (intro bodies_inv_handler [OF c]) simp_all
    next
      case (waits pc)
      then show ?thesis by (intro bodies_inv_handler [OF c]) simp_all
    qed
  next
    case LWait
    then have "waitReturns s = Some s'" using act by simp
    then show ?thesis
      by (cases rule: waitReturnsE) (auto intro!: bodies_inv_handler [OF c] simp: bodies_kept_def)
  next
    case LShutdownReply
    with act show ?thesis by (auto elim!: shutdownReplyE intro!: bodies_inv_handler [OF c])
  next
    case LResult
    then have h: "receiveResult s = Some s'" using act by simp
    from h result_open [OF inv h] show ?thesis
    proof (cases rule: receiveResultE)
      case (1 r rs ed)
      then show ?thesis
        by (intro bodies_inv_handler [OF c]) (auto simp: bodies_kept_def handleResult_def)
    qed
  next
    case (LTick t)
    then have h: "tickStep k t s = Some s'" using act by simp
    note o = ticking_open [OF inv h]
    from h o(1,2,4) show ?thesis
    proof (cases rule: tickStepE)
      case (flush ed)
      with triggerFlush_bodies [OF o(2,4) flush(2)] show ?thesis
        by (intro bodies_inv_handler [OF c]) simp_all
    next
      case users
      then show ?thesis
        by (intro bodies_inv_handler [OF c]) (simp_all add: usersResetTick_def bodies_kept_def)
    next
      case (diagnostics now ed mgr)
      with diagnosticsTick_bodies [OF o(2,4) diagnostics(2)] show ?thesis
        by (intro bodies_inv_handler [OF c]) simp_all
    qed
  next
    case (LTake i)
    then have "workerTake i s = Some s'" using act by simp
    then show ?thesis
    proof (cases rule: workerTakeE)
      case (takes p ps)
      then show ?thesis
        by (intro bodies_inv_worker [OF c, of i s' "Working p"]) (auto simp: openPayloads_def setWorker_def)
    next
      case exits
      then show ?thesis
        by (intro bodies_inv_worker [OF c, of i s' Exited]) (auto simp: openPayloads_def setWorker_def)
    qed
  next
    case (LWorkerSend i r)
    with act workerSend_bodies [OF c] show ?thesis by simp
  next
    case (LWorkerPost i)
    then have h: "workerPost i s = Some s'" using act by simp
    from h post_open [OF inv h] show ?thesis
    proof (cases rule: workerPostE)
      case (1 r)
      then show ?thesis
        by (intro bodies_inv_worker [OF c, of i s' Finishing]) (auto simp: openPayloads_def setWorker_def)
    qed
  next
    case (LWorkerDone i)
    then have h: "workerDone i s = Some s'" using act by simp
    from h done_counted [OF inv h] show ?thesis
    proof (cases rule: workerDoneE)
      case 1
      then show ?thesis
        by (intro bodies_inv_worker [OF c, of i s' Idle]) (auto simp: openPayloads_def setWorker_def)
    qed
  qed simp_all
qed

lemma start_bodies:
  fixes s :: "('a, 'c, 'v, 'r, 's) system"
  assumes "NewDefaultEventProcessor k config sampler mgr = Inr s"
  shows "bodies_inv k config s"
proof -
  obtain ed where ed: "startEventDispatcher (sk_V k) (sk_runtime k) config sampler mgr = Inr ed"
    and s: "sy_ed s = ed" "sy_sent s = []" "sy_workers s = replicate maxFlushWorkers Idle"
    using assms by (auto simp: NewDefaultEventProcessor_def go_bind_eq_Inr split: if_splits)
  obtain ob :: "('c, 'v, 'r) eventsOutbox" where ob: "newEventsOutbox (cg_Capacity config) = Inr ob"
    using ed by (auto simp: startEventDispatcher_def go_bind_eq_Inr)
  define ed0 where "ed0 = \<lparr>di_config = config, di_outbox = ob, di_flushCh = makeChan 1,
    di_senderResultCh = makeChan maxFlushWorkers, di_workersGroup = 0,
    di_userKeys = newLruCache (cg_UserKeysCapacity config),
    di_lastKnownPastTime = 0, di_deduplicatedContexts = 0,
    di_eventsInLastBatch = 0, di_disabled = False, di_sampler = sampler\<rparr>"
  have "bodies_kept (sk_V k) ed0 ed"
  proof (cases mgr)
    case None
    with ed ob show ?thesis by (simp add: startEventDispatcher_def Let_def ed0_def)
  next
    case (Some m)
    with ed ob have "sendDiagnosticsEvent ed0 (CreateInitEvent (sk_V k) (sk_runtime k) m) = Inr ed"
      by (simp add: startEventDispatcher_def Let_def ed0_def)
    then show ?thesis by (rule sendDiagnosticsEvent_bodies) (simp_all add: ed0_def)
  qed
  moreover have "concat (map workingPayloads (replicate n Idle)) = []" for n by (induction n) simp_all
  ultimately show ?thesis
    using s by (simp add: bodies_inv_def bodies_kept_def openPayloads_def ed0_def)
qed

lemma reachable_bodies:
  "reachable k config sampler mgr s \<Longrightarrow> 0 \<le> cg_UserKeysCapacity config \<Longrightarrow> bodies_inv k config s"
proof (induction rule: reachable.induct)
  case (reachable_start s)
  then show ?case by (simp add: start_bodies)
next
  case (reachable_step s l s')
  then have "sync_inv s" using reachable_inv [OF reachable_step.hyps(1)] by (simp add: sys_inv_def)
  with reachable_step show ?case by (auto intro: act_bodies)
qed

end
