(* ===== verification/Processor_Pipeline.thy ===== *)
theory Processor_Pipeline
  imports Processor_Bodies
begin

text \<open>
  The abstract specification of the event processor, a pipeline with one place for events that are
  accepted and not yet sent, and the proof that every step of the goroutines is a step of it.
\<close>

section \<open>The specification\<close>

record 'e pipeline =
  pl_pending :: "'e multiset"
  pl_sent :: "'e list"
  pl_discarded :: "'e list"

datatype pipeAct = Accept | Send | Discard | Skip

text \<open>Events come in, go out in a batch, or are thrown away; nothing else ever happens to them.\<close>

inductive pipe_step :: "pipeAct \<Rightarrow> 'e pipeline \<Rightarrow> 'e pipeline \<Rightarrow> bool" where
  pipe_accept: "pipe_step Accept p (p\<lparr>pl_pending := pl_pending p + mset es\<rparr>)"
| pipe_send: "pl_pending p = rest + mset es \<Longrightarrow>
    pipe_step Send p (p\<lparr>pl_pending := rest, pl_sent := pl_sent p @ es\<rparr>)"
| pipe_discard: "pl_pending p = rest + mset es \<Longrightarrow>
    pipe_step Discard p (p\<lparr>pl_pending := rest, pl_discarded := pl_discarded p @ es\<rparr>)"
| pipe_skip: "pipe_step Skip p p"

inductive_simps pipe_step_Skip [simp]: "pipe_step Skip p p'"

definition pipelineOf :: "('a, 'c, 'v, 'r, 's) system \<Rightarrow> ('c, 'v, 'r) anyEvent pipeline" where
  "pipelineOf s =
     \<lparr>pl_pending = mset (outboxEvents (sy_ed s)) + inFlight s, pl_sent = sentEvents s,
      pl_discarded = sy_discarded s\<rparr>"

text \<open>Only the handling of a message accepts, only a worker sends, only a result discards.\<close>

fun pipeActOf :: "('c, 'v, 'r) label \<Rightarrow> pipeAct" where
  "pipeActOf (LHandle now) = Accept"
| "pipeActOf (LWorkerSend i r) = Send"
| "pipeActOf LResult = Discard"
| "pipeActOf _ = Skip"

section \<open>The refinement\<close>

text \<open>How a step extends the histories.\<close>

definition extends ::
  "('a, 'c, 'v, 'r, 's) system \<Rightarrow> ('a, 'c, 'v, 'r, 's) system \<Rightarrow> ('c, 'v, 'r) anyEvent list \<Rightarrow>
   ('c, 'v, 'r) anyEvent list \<Rightarrow> ('c, 'v, 'r) anyEvent list \<Rightarrow> bool" where
  "extends s s' accepted sent discarded \<longleftrightarrow>
     sy_accepted s' = sy_accepted s @ accepted \<and> sentEvents s' = sentEvents s @ sent \<and>
     sy_discarded s' = sy_discarded s @ discarded"

lemma extends_pending:
  assumes "conserved s" and "conserved s'" and "extends s s' a b d"
  shows "pl_pending (pipelineOf s') + mset b + mset d = pl_pending (pipelineOf s) + mset a"
proof -
  let ?p = "pl_pending (pipelineOf s)" and ?p' = "pl_pending (pipelineOf s')"
  let ?h = "mset (sentEvents s) + mset (sy_discarded s)"
  have "?p' + mset b + mset d + ?h = mset (sy_accepted s')"
    using assms(2,3) by (simp add: conserved_def pipelineOf_def extends_def ac_simps)
  also have "\<dots> = ?p + mset a + ?h"
    using assms(1,3) by (simp add: conserved_def pipelineOf_def extends_def ac_simps)
  finally show ?thesis by simp
qed

lemma extends_same:
  "sy_accepted s' = sy_accepted s \<Longrightarrow> sy_sent s' = sy_sent s \<Longrightarrow> sy_discarded s' = sy_discarded s \<Longrightarrow>
     extends s s' [] [] []"
  by (simp add: extends_def sentEvents_def)

definition extends_by ::
  "pipeAct \<Rightarrow> ('a, 'c, 'v, 'r, 's) system \<Rightarrow> ('a, 'c, 'v, 'r, 's) system \<Rightarrow> bool" where
  "extends_by a s s' \<longleftrightarrow> (\<exists>es. extends s s' (if a = Accept then es else []) (if a = Send then es else [])
     (if a = Discard then es else []))"

lemma extends_none: "extends s s' [] [] [] \<Longrightarrow> extends_by a s s'"
  unfolding extends_by_def by (rule exI [of _ "[]"]) simp

lemma act_extends:
  assumes inv: "sync_inv s" and act: "act k l s = Some s'"
  shows "extends_by (pipeActOf l) s s'"
proof (cases "isCaller l")
  case True
  from callers_frame [OF act True] have "extends s s' [] [] []"
    by (intro extends_same) (simp_all add: callers_frame_def)
  then show ?thesis by (rule extends_none)
next
  case False
  then show ?thesis
  proof (cases l)
    case LReceive
    with act have "extends s s' [] [] []" by (auto elim!: receiveMessageE intro: extends_same)
    then show ?thesis by (rule extends_none)
  next
    case (LHandle now)
    then have h: "handleMessage k now s = Some s'" using act by simp
    note o = handling_open [OF inv h]
    from h o(1,2,4) show ?thesis
    proof (cases rule: handleMessageE)
      case (event evt ed)
      then have "extends s s' (drop (length (outboxEvents (sy_ed s))) (outboxEvents ed)) [] []"
        by (simp add: extends_def recordAccepted_def sentEvents_def)
      with LHandle show ?thesis by (auto simp: extends_by_def)
    next
      case (flush r ed)
      then have "extends s s' [] [] []" by (auto intro: extends_same)
      then show ?thesis by (rule extends_none)
    next
      case (waits pc)
      then have "extends s s' [] [] []" by (auto intro: extends_same)
      then show ?thesis by (rule extends_none)
    qed
  next
    case LWait
    then have "waitReturns s = Some s'" using act by simp
    then have "extends s s' [] [] []" by (cases rule: waitReturnsE) (auto intro: extends_same)
    then show ?thesis by (rule extends_none)
  next
    case LShutdownReply
    with act have "extends s s' [] [] []" by (auto elim!: shutdownReplyE intro: extends_same)
    then show ?thesis by (rule extends_none)
  next
    case LResult
    then have h: "receiveResult s = Some s'" using act by simp
    from h result_open [OF inv h] show ?thesis
      by (cases rule: receiveResultE)
        (auto simp: LResult extends_by_def extends_def recordDiscarded_def sentEvents_def)
  next
    case (LTick t)
    then have h: "tickStep k t s = Some s'" using act by simp
    note o = ticking_open [OF inv h]
    from h o(1,2,4) have "extends s s' [] [] []"
      by (cases rule: tickStepE) (auto intro: extends_same)
    then show ?thesis by (rule extends_none)
  next
    case (LTake i)
    with act have "extends s s' [] [] []"
      by (auto elim!: workerTakeE intro: extends_same simp: setWorker_def)
    then show ?thesis by (rule extends_none)
  next
    case (LWorkerSend i r)
    then have "workerSend k i r s = Some s'" using act by simp
    then have "\<exists>es. extends s s' [] es []"
      by (cases rule: workerSendE) (auto simp: extends_def sentEvents_def setWorker_def)
    then show ?thesis by (simp add: LWorkerSend extends_by_def)
  next
    case (LWorkerPost i)
    with act have "extends s s' [] [] []"
      by (auto simp: workerPost_def setWorker_def intro: extends_same
          split: if_splits worker.splits sum.splits option.splits)
    then show ?thesis by (rule extends_none)
  next
    case (LWorkerDone i)
    with act have "extends s s' [] [] []"
      by (auto simp: workerDone_def orCrash_def go_bind_def setWorker_def intro: extends_same
          split: if_splits sum.splits)
    then show ?thesis by (rule extends_none)
  qed simp_all
qed

lemma step_refines:
  assumes "sys_inv s" and "step k l s s'"
  shows "pipe_step (pipeActOf l) (pipelineOf s) (pipelineOf s')"
proof -
  have c: "conserved s" "conserved s'" and sync: "sync_inv s"
    using assms(1) step_sys_inv [OF assms] by (simp_all add: sys_inv_def)
  have extends_step: "extends_by (pipeActOf l) s s'" using act_extends [OF sync] assms(2) by blast
  obtain es where e: "extends s s' (if pipeActOf l = Accept then es else [])
      (if pipeActOf l = Send then es else []) (if pipeActOf l = Discard then es else [])"
    using extends_step by (auto simp: extends_by_def)
  note p = extends_pending [OF c e]
  have s': "pl_sent (pipelineOf s') = pl_sent (pipelineOf s) @ (if pipeActOf l = Send then es else [])"
    "pl_discarded (pipelineOf s') = pl_discarded (pipelineOf s) @ (if pipeActOf l = Discard then es else [])"
    using e by (simp_all add: extends_def pipelineOf_def)
  show ?thesis
  proof (cases "pipeActOf l")
    case Accept
    then have "pipelineOf s' = (pipelineOf s)\<lparr>pl_pending := pl_pending (pipelineOf s) + mset es\<rparr>"
      using p s' by simp
    with Accept pipe_accept show ?thesis by metis
  next
    case Send
    then have "pipelineOf s' =
        (pipelineOf s)\<lparr>pl_pending := pl_pending (pipelineOf s'), pl_sent := pl_sent (pipelineOf s) @ es\<rparr>"
      using s' by simp
    with Send p pipe_send [of "pipelineOf s" "pl_pending (pipelineOf s')" es] show ?thesis by simp
  next
    case Discard
    then have "pipelineOf s' = (pipelineOf s)
        \<lparr>pl_pending := pl_pending (pipelineOf s'), pl_discarded := pl_discarded (pipelineOf s) @ es\<rparr>"
      using s' by simp
    with Discard p pipe_discard [of "pipelineOf s" "pl_pending (pipelineOf s')" es] show ?thesis by simp
  next
    case Skip
    with p s' show ?thesis by simp
  qed
qed

text \<open>
  C2: The event processor implements the pipeline: it starts as the empty pipeline, and every step of
  any goroutine is, under the abstraction, a step of the specification: handling a message accepts
  events, a worker sends a batch that was pending, the receipt of a result may discard what is
  pending, and every other step leaves the events where they are. What counts as sent really is in a
  body: every call of the sender so far was handed the formatted document of its payload, with its
  event count, or that payload's diagnostic event, and a payload with a diagnostic event has no others.
\<close>

theorem processor_refines_pipeline:
  assumes "NewDefaultEventProcessor k config sampler mgr = Inr s0" and "0 \<le> cg_UserKeysCapacity config"
    and "steps k ls s0 s" and "step k l s s'"
  shows "pipelineOf s0 = \<lparr>pl_pending = {#}, pl_sent = [], pl_discarded = []\<rparr> \<and>
    pipe_step (pipeActOf l) (pipelineOf s) (pipelineOf s') \<and>
    (\<forall>d \<in> set (sy_sent s').
       (fl_diagnosticEvent (dl_payload d) = v_null (sk_V k) \<or> fl_events (dl_payload d) = []) \<and>
       (if v_isNull (sk_V k) (fl_diagnosticEvent (dl_payload d)) then
          dl_kind d = AnalyticsEventDataKind \<and>
          outputOf k config (dl_payload d) = Some (Some (dl_body d), dl_count d)
        else dl_kind d = DiagnosticEventDataKind \<and>
          dl_body d = [WValue (fl_diagnosticEvent (dl_payload d))] \<and> dl_count d = 1))"
proof -
  have i: "sys_inv s0" by (rule reachable_inv [OF reachable_start [OF assms(1)] assms(2)])
  have "sy_accepted s0 = [] \<and> sy_sent s0 = [] \<and> sy_discarded s0 = []"
    using assms(1) by (auto simp: NewDefaultEventProcessor_def go_bind_eq_Inr split: if_splits)
  then have "pipelineOf s0 = \<lparr>pl_pending = {#}, pl_sent = [], pl_discarded = []\<rparr>"
    using i by (simp add: sys_inv_def conserved_def pipelineOf_def sentEvents_def)
  moreover have "reachable k config sampler mgr s'"
    by (rule reachable_step [OF steps_reachable [OF assms(3) reachable_start [OF assms(1)]] assms(4)])
  then have "bodies_inv k config s'" using assms(2) by (rule reachable_bodies)
  then have "\<forall>d \<in> set (sy_sent s'). wellMade (sk_V k) (dl_payload d) \<and> handedOver k config d"
    by (simp add: bodies_inv_def)
  ultimately show ?thesis
    using step_refines [OF steps_inv [OF assms(3) i] assms(4)]
    unfolding wellMade_def handedOver_def by simp
qed

theorem processor_refines_pipeline_witness:
  "\<exists>s s' d. steps sampleSdk (recordTrace ''a'' @ flushTrace @ [LTake 0]) sampleInit s \<and>
    step sampleSdk (LWorkerSend 0 okResult) s s' \<and> pipe_step Send (pipelineOf s) (pipelineOf s') \<and>
    sy_sent s' = [d] \<and> fl_events (dl_payload d) = [RawEvent ''a''] \<and>
    dl_kind d = AnalyticsEventDataKind \<and>
    outputOf sampleSdk sampleConfig (dl_payload d) = Some (Some (dl_body d), 1)"
proof -
  let ?ls = "recordTrace ''a'' @ flushTrace @ [LTake 0] :: (sctx, sval, string) label list"
  have "case run sampleSdk ?ls sampleInit of None \<Rightarrow> False
    | Some s \<Rightarrow> sy_crash s = None \<and> (case act sampleSdk (LWorkerSend 0 okResult) s of None \<Rightarrow> False
       | Some s' \<Rightarrow> (case sy_sent s' of
           [d] \<Rightarrow> fl_events (dl_payload d) = [RawEvent ''a''] \<and> dl_count d = 1 \<and>
             v_isNull (sk_V sampleSdk) (fl_diagnosticEvent (dl_payload d))
         | _ \<Rightarrow> False))"
    by code_simp
  then obtain s s' d where s: "run sampleSdk ?ls sampleInit = Some s" "sy_crash s = None"
    "act sampleSdk (LWorkerSend 0 okResult) s = Some s'" "sy_sent s' = [d]"
    "fl_events (dl_payload d) = [RawEvent ''a'']" "dl_count d = 1"
    "v_isNull (sk_V sampleSdk) (fl_diagnosticEvent (dl_payload d))"
    by (auto split: option.splits list.splits)
  have ss: "steps sampleSdk ?ls sampleInit s" by (rule run_steps) (rule s(1))
  have st: "step sampleSdk (LWorkerSend 0 okResult) s s'" using s(2,3) by (rule step_act)
  from processor_refines_pipeline [OF sampleInit_start sampleConfig_keys ss st] ss st s(4-7)
  show ?thesis by auto
qed

end
