(* ===== verification/Spec2Isabelle.thy ===== *)
theory Spec2Isabelle
  imports Processor_Pipeline
begin

text \<open>
  Verification of the LaunchDarkly Go SDK event component (package \<open>ldevents\<close>).

  \<^bold>\<open>The program.\<close> An SDK client builds event data with an \<open>EventFactory\<close> (\<open>inputs.go\<close>) and hands it to
  an \<open>EventProcessor\<close> (\<open>interfaces.go\<close>). The default processor (\<open>event_processor.go\<close>) puts a message
  into its inbox channel. One dispatcher goroutine takes the messages: it adds evaluations to the
  summary (\<open>event_summarizer.go\<close>), keeps recently seen contexts in an LRU cache (\<open>lru_cache.go\<close>),
  decides about index, full and debug events, and collects them in the bounded outbox (\<open>outbox.go\<close>).
  A flush moves the outbox as one payload into \<open>flushCh\<close>. Five worker goroutines format payloads
  (\<open>events_output.go\<close>, with \<open>context_formatter.go\<close> for contexts and their private attributes), send
  them through the \<open>EventSender\<close> (\<open>event_sender.go\<close>, with \<open>util.go\<close> for HTTP errors), and post its
  results into \<open>senderResultCh\<close>, which the dispatcher reads. A diagnostics manager
  (\<open>diagnostic_events.go\<close>) makes the diagnostic events that take the same way. \<open>config.go\<close> has the
  settings and \<open>null_event_processor.go\<close> a processor that does nothing.

  \<^bold>\<open>The theories.\<close>
  \<^item> \<open>Prelude\<close>: maps as association lists, panics as values (\<open>go\<close>), numerals, \<open>float64\<close> conversion,
    string trimming, and the lemmas on lists and maps that several components use.
  \<^item> \<open>Go_Sync\<close>: buffered channels and wait groups, with the locale \<open>fifo\<close>.
  \<^item> \<open>Sdk_Common\<close>: the interfaces of the imported packages (values, contexts, attribute references,
    reasons, sampling) as records of functions, and the documented laws that some theorems assume
    (\<open>value_finite\<close>, \<open>sampler_law\<close>, \<open>reason_law\<close>). \<open>Sample_Sdk\<close> is a concrete instance of them for
    the witnesses.
  \<^item> \<open>Config\<close>, \<open>Inputs\<close>: the settings; the event data and the factory.
  \<^item> \<open>Event_Summarizer\<close>, \<open>Outbox\<close>, \<open>Lru_Cache\<close>, \<open>Util\<close>, \<open>Diagnostic_Events\<close>: one source file each, with
    the invariant of its state, the behaviour of its operations and, for the outbox and the cache, the
    contract (locales \<open>event_buffer\<close>, \<open>key_cache\<close>) that the dispatcher's proofs use.
  \<^item> \<open>Json_Writer\<close>: the calls on the JSON writer, the document that a sequence of calls denotes, and the
    locale \<open>doc_writer\<close>. \<open>Context_Formatter\<close> and \<open>Events_Output\<close> interpret it.
  \<^item> \<open>Event_Sender\<close>: requests, answers, the retry loop; locale \<open>event_sender\<close>.
  \<^item> \<open>Event_Dispatcher\<close>: the dispatcher's state and each of its handlers as a function.
  \<^item> \<open>Event_Processor\<close>: the whole processor as a transition system of callers, dispatcher and workers.
    \<open>Processor_Invariants\<close> and \<open>Processor_Properties\<close> have its invariants (synchronisation, shutdown
    protocol, conservation of events), \<open>Processor_Shutdown\<close> what holds after \<open>Close\<close> and how \<open>Close\<close> can
    fail, \<open>Processor_Liveness\<close> that waiting ends, \<open>Processor_Calls\<close> the order of messages and the replies
    to blocking calls, \<open>Processor_Disabled\<close> the stop by the server, panics and diagnostics,
    \<open>Processor_Interface\<close> the contract of the interface (locales \<open>event_processor\<close> and
    \<open>closable_processor\<close>) with both implementations, \<open>Processor_Delivery\<close> what \<open>FlushBlocking\<close> delivers,
    \<open>Processor_Bounds\<close> that everything the processor keeps is bounded by the configuration,
    \<open>Processor_Bodies\<close> that every body handed to the sender is the document of its payload, and
    \<open>Processor_Pipeline\<close> the abstract specification of the processor, a pipeline of events that are
    accepted, sent or discarded, with the proof that every step implements it.
  \<^item> This theory: properties that span components.

  \<^bold>\<open>Correspondence.\<close> A definition has the name of the Go function or type it models. The fields of a
  record have a prefix (\<open>di_\<close> for \<open>eventDispatcher\<close>, \<open>ob_\<close> for \<open>eventsOutbox\<close>, \<open>ed_\<close> for
  \<open>EvaluationData\<close>, and so on). A method that changes its receiver returns the changed state. Where a
  panic is possible the result is in the \<open>go\<close> type. Timestamps and counters that can wrap are 64-bit
  words. A Go map is an association list with distinct keys, in one of the orders in which a loop may
  visit it. Fields \<open>sy_sent\<close>, \<open>sy_accepted\<close> and \<open>sy_discarded\<close> of the system are history: no action
  reads them. The model interleaves the goroutines at their channel operations, at
  \<open>workersGroup.Wait\<close> and \<open>Done\<close>, and at the call of the sender; a handler of the dispatcher is one
  action, for all it touches in between is its own. \<open>SendEventData\<close> may return any result there.

  \<^bold>\<open>Bounds.\<close> The only fuel is the parameter \<open>n\<close> of \<open>writeContext\<close> and its callers, for the recursion into
  attribute values; \<open>writeContext_returns\<close> and \<open>output_returns\<close> show that any fuel above the nesting
  depth of the values is enough, and no theorem about the output assumes a particular one. The retry
  loop has the two rounds of the code.

  \<^bold>\<open>Private attributes.\<close> A configured reference that is listed after a longer one below it is ignored by
  the code (\<open>global_ref_shadowed\<close>), against what \<open>config.go\<close> says. \<open>redaction_exact\<close> therefore has the
  hypothesis \<open>unshadowed\<close>, that no configured reference is so listed; under it the written attributes are
  exactly those that no reference, configured or of the context, covers.

  \<^bold>\<open>Not modelled.\<close> The bytes the JSON writer produces (\<open>jwriter\<close> is not part of the repository; the
  model is the sequence of calls on it); the transport, the clock, random numbers and the sampler
  (arguments, with any behaviour); log messages other than the warnings of the inbox, the outbox and the sender;
  the time at which tickers fire (a tick may come whenever the dispatcher is at its \<open>select\<close>) and the
  \<open>Stop\<close> of the tickers at shutdown, after which the dispatcher never returns to its \<open>select\<close>; calls of
  \<open>Close\<close> after the first, which only wait for the first to return; the unbuffered reply channel of
  \<open>syncEventsMessage\<close>, which only tests send and receive from at once, so its reply never blocks here; possible sharing of the slices that
  \<open>writeFilteredAttribute\<close> extends (each call extends its own path and uses it before the next);
  \<open>package_info.go\<close>, a comment.
\<close>

section \<open>From the factory to the document\<close>

text \<open>
  C20: An evaluation event made by the factory is reported faithfully. When it is written, the document
  reads back with the creation time exactly (for clocks below \<open>2^53\<close> milliseconds), the flag's key and
  version, the variation, value and default of the evaluation, the key of the flag it is a prerequisite
  of if there is one, the sampling ratio unless it is one, and the reason exactly if the factory includes reasons
  or the evaluation is part of an experiment, and the reason has a kind.
\<close>

theorem evaluation_roundtrip:
  fixes cs :: "('v, 'r) wcall list" and ec :: "'c EventInputContext"
  assumes evt: "evt = NewEvaluationData R f w props ec detail isExperiment defaultVal prereqOf ratio exclude"
    and "writeOutputEvent n V A C R (newEventContextFormatter A allPrivate refs) (Evaluation evt) = Some cs"
    and "writable C ec" and "reason_law R" and "unat (ef_timeFn f w) < 2 ^ 53"
  shows "\<exists>ms date. readDoc cs = Some (DObject ms) \<and>
    map_of ms ''kind'' = Some (DString ''feature'') \<and>
    map_of ms ''creationDate'' = Some (DFloat64 date) \<and> float64_nat date = unat (ef_timeFn f w) \<and>
    map_of ms ''key'' = Some (DString (fp_Key props)) \<and>
    map_of ms ''version'' = Some (DInt (fp_Version props)) \<and>
    map_of ms ''variation'' = map_option DInt (det_VariationIndex detail) \<and>
    map_of ms ''value'' = Some (DValue (det_Value detail)) \<and>
    map_of ms ''default'' = Some (DValue defaultVal) \<and>
    map_of ms ''prereqOf'' = (if prereqOf = [] then None else Some (DString prereqOf)) \<and>
    map_of ms ''reason'' =
      (if (ef_includeReasons f \<or> isExperiment) \<and> r_getKind R (det_Reason detail) \<noteq> []
       then Some (DReason (det_Reason detail)) else None) \<and>
    map_of ms ''samplingRatio'' = (if ratio = Some 1 then None else map_option DInt ratio)"
proof -
  have base: "ed_BaseEvent evt = \<lparr>be_CreationDate = ef_timeFn f w, be_Context = ec\<rparr>"
    "\<not> ed_debug evt"
    by (simp_all add: evt NewEvaluationData_def Let_def)
  have "eventWritable C (Evaluation evt)" using assms(3) by (simp add: eventWritable_def base)
  from writeOutputEvent_doc [OF this assms(2)]
  obtain d :: "('v, 'r) doc" where "cs = calls (eventDoc V C R d (Evaluation evt))" by blast
  then have "readDoc cs = Some (eventDoc V C R d (Evaluation evt))" by simp
  then show ?thesis
    using assms(4) float64_exact [OF assms(5)]
    by (auto simp: eventDoc_def base baseMembers_def maybeMember_def samplingMember_def intValue_def
        stringValue_def evt NewEvaluationData_def Let_def reason_law_def split: option.splits)
qed

definition sampleProps :: "FlagEventProperties" where
  "sampleProps = \<lparr>fp_Key = ''f'', fp_Version = 3, fp_RequireFullEvent = False, fp_DebugEventsUntilDate = 0\<rparr>"

theorem evaluation_roundtrip_witness:
  "\<exists>cs ms. writeOutputEvent 3 sampleV sampleA sampleC sampleR (newEventContextFormatter sampleA False [])
      (Evaluation (NewEvaluationData sampleR (NewEventFactory id False None) 20 sampleProps
        (Context (sampleUser ''u'')) \<lparr>det_Value = SNum 1, det_VariationIndex = Some 1, det_Reason = ''RULE''\<rparr>
        True SNull [] None False)) = Some cs \<and>
    readDoc cs = Some (DObject ms) \<and> map_of ms ''reason'' = Some (DReason ''RULE'')"
proof -
  let ?f = "NewEventFactory id False None :: millis EventFactory"
  let ?d = "\<lparr>det_Value = SNum 1, det_VariationIndex = Some 1, det_Reason = ''RULE''\<rparr>"
  let ?e = "NewEvaluationData sampleR ?f 20 sampleProps (Context (sampleUser ''u'')) ?d True SNull [] None False"
  have "eventFuel sampleV sampleC s_depth 3 (Evaluation ?e)"
    by code_simp
  then obtain cs where cs: "writeOutputEvent 3 sampleV sampleA sampleC sampleR
      (newEventContextFormatter sampleA False []) (Evaluation ?e) = Some cs"
    using writeOutputEvent_total [OF value_finite_sample] by blast
  have "writable sampleC (Context (sampleUser ''u''))"
    by (simp add: writable_def sampleC_def sampleUser_def Context_def)
  moreover have "reason_law sampleR" by (simp add: reason_law_def sampleR_def)
  moreover have "unat (ef_timeFn ?f 20) < 2 ^ 53" by (simp add: NewEventFactory_def)
  ultimately show ?thesis
    using evaluation_roundtrip [OF refl cs] cs by (auto simp: sampleR_def)
qed

end
